theory Spec2Isabelle
  imports Main "HOL-Library.Sublist"
begin

section \<open>Strings, panics and errors\<close>

text \<open>
  A Go \<^verbatim>\<open>string\<close> is a sequence of bytes: \<^typ>\<open>string\<close>. A Go function either
  returns or panics; \<open>Panic\<close> carries the panic's message.
\<close>

datatype 'a result = Panic string | Ok 'a

datatype error = Error string

section \<open>The regular expressions of the program\<close>

text \<open>
  The character classes the two patterns use: \<^verbatim>\<open>.\<close> (any character but newline),
  \<^verbatim>\<open>[\w-]\<close> and \<^verbatim>\<open>\d\<close> (both ASCII only in Go).
\<close>

datatype cclass = AnyCharNotNL | WordOrHyphen | Digit

definition is_digit :: "char \<Rightarrow> bool" where
  "is_digit c \<longleftrightarrow> c \<in> set ''0123456789''"

definition is_word :: "char \<Rightarrow> bool" where
  "is_word c \<longleftrightarrow>
     c \<in> set ''0123456789ABCDEFGHIJKLMNOPQRSTUVWXYZ_abcdefghijklmnopqrstuvwxyz''"

fun in_class :: "cclass \<Rightarrow> char \<Rightarrow> bool" where
  "in_class AnyCharNotNL c = (c \<noteq> CHR 0x0A)"
| "in_class WordOrHyphen c = (is_word c \<or> c = CHR ''-'')"
| "in_class Digit c = is_digit c"

text \<open>
  The syntax of a compiled pattern. \<open>Bot\<close> and \<open>Eot\<close> are \<^verbatim>\<open>^\<close> and \<^verbatim>\<open>$\<close> (no
  multi-line flag: beginning and end of the text), \<open>Star\<close> and \<open>Plus\<close> the greedy
  repetitions of a character class, \<open>Opt\<close> the greedy \<^verbatim>\<open>?\<close>, \<open>Cap i\<close> the capturing
  group number \<open>i\<close>.
\<close>

datatype re =
    Bot
  | Eot
  | Lit string
  | Star cclass
  | Plus cclass
  | Cat re re
  | Alt re re
  | Opt re
  | Cap nat re

text \<open>
  Go's \<^verbatim>\<open>regexp\<close> returns the match a backtracking search finds first
  (leftmost-first). \<open>backtrack t r s c\<close> lists, in the order of that search, every way
  \<open>r\<close> can match at the beginning of the suffix \<open>s\<close> of the text \<open>t\<close>: the rest of the
  text after the match, and the captures (\<open>c\<close> updated).
\<close>

fun backtrack :: "string \<Rightarrow> re \<Rightarrow> string \<Rightarrow> string list \<Rightarrow> (string \<times> string list) list" where
  "backtrack t Bot s c = (if s = t then [(s, c)] else [])"
| "backtrack t Eot s c = (if s = [] then [(s, c)] else [])"
| "backtrack t (Lit l) s c = (if prefix l s then [(drop (length l) s, c)] else [])"
| "backtrack t (Star k) s c =
     map (\<lambda>n. (drop n s, c)) (rev [0 ..< Suc (length (takeWhile (in_class k) s))])"
| "backtrack t (Plus k) s c =
     map (\<lambda>n. (drop n s, c)) (rev [1 ..< Suc (length (takeWhile (in_class k) s))])"
| "backtrack t (Cat a b) s c =
     concat (map (\<lambda>(s1, c1). backtrack t b s1 c1) (backtrack t a s c))"
| "backtrack t (Alt a b) s c = backtrack t a s c @ backtrack t b s c"
| "backtrack t (Opt a) s c = backtrack t a s c @ [(s, c)]"
| "backtrack t (Cap i a) s c =
     map (\<lambda>(s1, c1). (s1, c1[i := take (length s - length s1) s])) (backtrack t a s c)"

record regexp =
  prog :: re
  numSubexp :: nat
  subexpNames :: "string list"

text \<open>
  \<^verbatim>\<open>FindStringSubmatch\<close>: the leftmost match, tried at every offset of the text
  in turn; element 0 of the result is the matched text, element \<open>i\<close> the text of group
  \<open>i\<close> (empty when the group took no part). No match is the nil slice, \<open>[]\<close>.
\<close>

fun scan :: "regexp \<Rightarrow> string \<Rightarrow> string \<Rightarrow> string list" where
  "scan r t s =
     (case backtrack t (prog r) s (replicate (Suc (numSubexp r)) []) of
        (s1, c) # _ \<Rightarrow> c[0 := take (length s - length s1) s]
      | [] \<Rightarrow> (case s of [] \<Rightarrow> [] | _ # s' \<Rightarrow> scan r t s'))"

declare scan.simps [simp del]

definition FindStringSubmatch :: "regexp \<Rightarrow> string \<Rightarrow> string list" where
  "FindStringSubmatch r t = scan r t t"

text \<open>
  \<^verbatim>\<open>FindAllStringSubmatch(s, -1)\<close>, for a pattern that begins with \<^verbatim>\<open>^\<close> and ends with
  \<^verbatim>\<open>$\<close>, as both patterns of the program do: a match starts at offset 0 and ends at
  the end of the text, so there is at most one.
\<close>

definition FindAllStringSubmatch :: "regexp \<Rightarrow> string \<Rightarrow> string list list" where
  "FindAllStringSubmatch r t =
     (let m = FindStringSubmatch r t in if length m = 0 then [] else [m])"

section \<open>Accounts\<close>

record Account =
  AccountId :: string
  AccountAlias :: string

text \<open>\<^verbatim>\<open>func (a Account) String() string\<close>\<close>

definition String :: "Account \<Rightarrow> string" where
  "String a = (if AccountAlias a \<noteq> [] then AccountAlias a @ ''-'' @ AccountId a else AccountId a)"

text \<open>\<^verbatim>\<open>var accountReg = regexp.MustCompile(`^(([\w-]+)-)?(\d+)$`)\<close>\<close>

definition accountReg :: regexp where
  "accountReg = \<lparr>
     prog = Cat Bot (Cat (Opt (Cap 1 (Cat (Cap 2 (Plus WordOrHyphen)) (Lit ''-''))))
                    (Cat (Cap 3 (Plus Digit)) Eot)),
     numSubexp = 3,
     subexpNames = [[], [], [], []] \<rparr>"

definition NewAccountFromString :: "string \<Rightarrow> Account result" where
  "NewAccountFromString s =
     (let result = FindAllStringSubmatch accountReg s in
      if length result = 0 then Panic (''Can't create account name from '' @ s)
      else if length (result ! 0) = 4
        then Ok \<lparr> AccountId = result ! 0 ! 3, AccountAlias = result ! 0 ! 2 \<rparr>
      else if length (result ! 0) = 3
        then Ok \<lparr> AccountId = result ! 0 ! 1, AccountAlias = [] \<rparr>
      else Panic (''Can't create account name from '' @ s))"

text \<open>\<^verbatim>\<open>arnFor\<close>, \<^verbatim>\<open>policyArnFromString\<close>, \<^verbatim>\<open>normalisePolicyArn\<close>\<close>

definition arnFor :: "Account \<Rightarrow> string \<Rightarrow> string \<Rightarrow> string \<Rightarrow> string" where
  "arnFor a key path name = ''arn:aws:iam::'' @ AccountId a @ '':'' @ key @ path @ name"

definition HasPrefix :: "string \<Rightarrow> string \<Rightarrow> bool" where
  "HasPrefix s p = prefix p s"

definition TrimPrefix :: "string \<Rightarrow> string \<Rightarrow> string" where
  "TrimPrefix s p = (if HasPrefix s p then drop (length p) s else s)"

definition policyArnFromString :: "Account \<Rightarrow> string \<Rightarrow> string" where
  "policyArnFromString a nameOrArn =
     (if HasPrefix nameOrArn ''arn:'' then nameOrArn
      else ''arn:aws:iam::'' @ AccountId a @ '':policy/'' @ nameOrArn)"

definition normalisePolicyArn :: "Account \<Rightarrow> string \<Rightarrow> string" where
  "normalisePolicyArn a arn = TrimPrefix arn (''arn:aws:iam::'' @ AccountId a @ '':policy/'')"

text \<open>
  The account grammar in the spec's words: bare digits, or an alias of word characters
  and hyphens followed by a hyphen and digits.
\<close>

definition bareAccountId :: "string \<Rightarrow> bool" where
  "bareAccountId s \<longleftrightarrow> s \<noteq> [] \<and> list_all is_digit s"

definition aliasAccountId :: "string \<Rightarrow> bool" where
  "aliasAccountId s \<longleftrightarrow>
     (\<exists>al ident. s = al @ ''-'' @ ident \<and> al \<noteq> [] \<and>
        list_all (in_class WordOrHyphen) al \<and> bareAccountId ident)"

section \<open>Resources\<close>

text \<open>
  A value of \<^verbatim>\<open>interface{}\<close> inside a policy document, as the YAML library hands it
  over; the program never looks inside one.
\<close>

datatype yvalue =
    YNull
  | YBool bool
  | YInt int
  | YStr string
  | YSeq "yvalue list"
  | YMap "(string \<times> yvalue) list"

type_synonym PolicyDocument = "(string \<times> yvalue) list"

record InlinePolicy =
  InlinePolicyName :: string
  InlinePolicyPolicy :: PolicyDocument

record User =
  UserName :: string
  UserPath :: string
  UserGroups :: "string list"
  UserInlinePolicies :: "InlinePolicy list"
  UserPolicies :: "string list"

record Group =
  GroupName :: string
  GroupPath :: string
  GroupInlinePolicies :: "InlinePolicy list"
  GroupPolicies :: "string list"

record Policy =
  PolicyName :: string
  PolicyPath :: string
  PolicyPolicy :: PolicyDocument

record Role =
  RoleName :: string
  RolePath :: string
  RoleAssumeRolePolicyDocument :: PolicyDocument
  RoleInlinePolicies :: "InlinePolicy list"
  RolePolicies :: "string list"

text \<open>The interface \<^verbatim>\<open>AwsResource\<close> and its four implementations.\<close>

datatype AwsResource = AUser User | AGroup Group | APolicy Policy | ARole Role

fun Type :: "AwsResource \<Rightarrow> string" where
  "Type (AUser u) = ''user''"
| "Type (AGroup g) = ''group''"
| "Type (APolicy p) = ''policy''"
| "Type (ARole r) = ''role''"

fun NameString :: "AwsResource \<Rightarrow> string" where
  "NameString (AUser u) = UserName u"
| "NameString (AGroup g) = GroupName g"
| "NameString (APolicy p) = PolicyName p"
| "NameString (ARole r) = RoleName r"

fun PathString :: "AwsResource \<Rightarrow> string" where
  "PathString (AUser u) = UserPath u"
| "PathString (AGroup g) = GroupPath g"
| "PathString (APolicy p) = PolicyPath p"
| "PathString (ARole r) = RolePath r"

definition Arn :: "AwsResource \<Rightarrow> Account \<Rightarrow> string" where
  "Arn r a = arnFor a (Type r) (PathString r) (NameString r)"

record AccountData =
  DataAccount :: Account
  Users :: "User list"
  Groups :: "Group list"
  Roles :: "Role list"
  Policies :: "Policy list"

definition NewAccountData :: "string \<Rightarrow> AccountData result" where
  "NewAccountData account =
     (case NewAccountFromString account of
        Panic m \<Rightarrow> Panic m
      | Ok a \<Rightarrow> Ok \<lparr> DataAccount = a, Users = [], Groups = [], Roles = [], Policies = [] \<rparr>)"

definition addUser :: "User \<Rightarrow> AccountData \<Rightarrow> AccountData" where
  "addUser u a = a\<lparr> Users := Users a @ [u] \<rparr>"

definition addGroup :: "Group \<Rightarrow> AccountData \<Rightarrow> AccountData" where
  "addGroup g a = a\<lparr> Groups := Groups a @ [g] \<rparr>"

definition addRole :: "Role \<Rightarrow> AccountData \<Rightarrow> AccountData" where
  "addRole r a = a\<lparr> Roles := Roles a @ [r] \<rparr>"

definition addPolicy :: "Policy \<Rightarrow> AccountData \<Rightarrow> AccountData" where
  "addPolicy p a = a\<lparr> Policies := Policies a @ [p] \<rparr>"

section \<open>The path codec\<close>

text \<open>
  A parsed \<^verbatim>\<open>text/template\<close>: text, and actions that print a chain of fields of the
  context.
\<close>

datatype node = TextNode string | FieldNode "string list"

record YamlLoadDumper =
  pathTemplate :: "node list"
  pathRegex :: regexp
  Dir :: string

text \<open>
  \<^verbatim>\<open>pathTemplate: "{{.Account}}/{{.Resource.Type}}{{.Resource.Path}}{{.Resource.Name}}.yaml"\<close>
  \<^verbatim>\<open>pathRegex: `^(?P<account>.+)/(?P<entity>(user|group|policy|role))(?P<path>.*/)(?P<name>.+)\.yaml$`\<close>
\<close>

definition Yaml :: YamlLoadDumper where
  "Yaml = \<lparr>
     pathTemplate =
       [FieldNode [''Account''], TextNode ''/'', FieldNode [''Resource'', ''Type''],
        FieldNode [''Resource'', ''Path''], FieldNode [''Resource'', ''Name''],
        TextNode ''.yaml''],
     pathRegex = \<lparr>
       prog =
         Cat Bot
        (Cat (Cap 1 (Plus AnyCharNotNL))
        (Cat (Lit ''/'')
        (Cat (Cap 2 (Cap 3 (Alt (Lit ''user'') (Alt (Lit ''group'')
                           (Alt (Lit ''policy'') (Lit ''role''))))))
        (Cat (Cap 4 (Cat (Star AnyCharNotNL) (Lit ''/'')))
        (Cat (Cap 5 (Plus AnyCharNotNL))
        (Cat (Lit ''.yaml'') Eot)))))),
       numSubexp = 5,
       subexpNames = [[], ''account'', ''entity'', [], ''path'', ''name''] \<rparr>,
     Dir = [] \<rparr>"

text \<open>
  \<^verbatim>\<open>namedMatch\<close>: the map from group name to matched text; a later group of the same
  name (the two unnamed ones) overwrites an earlier one.
\<close>

definition namedMatch :: "regexp \<Rightarrow> string \<Rightarrow> bool \<times> (string \<rightharpoonup> string)" where
  "namedMatch r s =
     (let match = FindStringSubmatch r s in
      if length match = 0 then (False, Map.empty)
      else (True, fold (\<lambda>(i, name) result. result(name \<mapsto> match ! i))
                       (enumerate 0 (subexpNames r)) Map.empty))"

text \<open>Reading a Go map: a missing key reads as the zero value.\<close>

definition at :: "(string \<rightharpoonup> string) \<Rightarrow> string \<Rightarrow> string" where
  "at m k = (case m k of None \<Rightarrow> [] | Some v \<Rightarrow> v)"

text \<open>
  Executing the template on the context \<^verbatim>\<open>{"Account": a, "Resource": r}\<close>.
  \<^verbatim>\<open>.Account\<close> prints the account through its \<^verbatim>\<open>String\<close> method, \<^verbatim>\<open>.Resource.Type\<close>
  calls the method \<^verbatim>\<open>Type\<close>, \<^verbatim>\<open>.Resource.Path\<close> and \<^verbatim>\<open>.Resource.Name\<close> read the fields
  (the ones \<^verbatim>\<open>PathString\<close> and \<^verbatim>\<open>NameString\<close> return). Only the chains the program's
  template uses are evaluated; any other is an execution error here.
\<close>

definition evalField :: "Account \<Rightarrow> AwsResource \<Rightarrow> string list \<Rightarrow> error + string" where
  "evalField a r chain =
     (if chain = [''Account''] then Inr (String a)
      else if chain = [''Resource'', ''Type''] then Inr (Type r)
      else if chain = [''Resource'', ''Path''] then Inr (PathString r)
      else if chain = [''Resource'', ''Name''] then Inr (NameString r)
      else Inl (Error ''template: can't evaluate field''))"

fun execute :: "node list \<Rightarrow> Account \<Rightarrow> AwsResource \<Rightarrow> string \<Rightarrow> error + string" where
  "execute [] a r buf = Inr buf"
| "execute (TextNode t # ns) a r buf = execute ns a r (buf @ t)"
| "execute (FieldNode chain # ns) a r buf =
     (case evalField a r chain of
        Inl e \<Rightarrow> Inl e
      | Inr v \<Rightarrow> execute ns a r (buf @ v))"

definition renderPath :: "node list \<Rightarrow> Account \<Rightarrow> AwsResource \<Rightarrow> error + string" where
  "renderPath tpl a r = execute tpl a r []"

text \<open>
  The four values \<^verbatim>\<open>Load\<close> reads from a relative path (the match and the four map
  reads at the head of its loop), or \<open>None\<close> when the path does not match.
\<close>

definition pathComponents :: "string \<Rightarrow> (string \<times> string \<times> string \<times> string) option" where
  "pathComponents fp =
     (let (matched, result) = namedMatch (pathRegex Yaml) fp in
      if matched
      then Some (at result ''account'', at result ''entity'', at result ''path'', at result ''name'')
      else None)"

text \<open>\<open>matches fp\<close>: the relative path \<open>fp\<close> matches the program's path pattern.\<close>

definition matches :: "string \<Rightarrow> bool" where
  "matches fp = fst (namedMatch (pathRegex Yaml) fp)"

text \<open>
  Words for the statements about paths: a string without a newline; the four type keys;
  a canonical account string (one of the account grammar); a hierarchical path with a
  segment that begins with a type key (as in \<^verbatim>\<open>/users/\<close>).
\<close>

definition plain :: "string \<Rightarrow> bool" where
  "plain s \<longleftrightarrow> CHR 0x0A \<notin> set s"

definition typeKeys :: "string list" where
  "typeKeys = [''user'', ''group'', ''policy'', ''role'']"

definition canonicalAccount :: "string \<Rightarrow> bool" where
  "canonicalAccount s \<longleftrightarrow> bareAccountId s \<or> aliasAccountId s"

definition typeKeySegment :: "string \<Rightarrow> bool" where
  "typeKeySegment p \<longleftrightarrow> list_ex (\<lambda>k. sublist (''/'' @ k) p) typeKeys"

text \<open>
  The two shapes of a relative path. \<open>renderForm\<close> is the format in the spec's words:
  \<^verbatim>\<open><account>/<typeKey><hierarchical-path><name>.yaml\<close> with a canonical account string
  and a hierarchical path that begins and ends with a slash. \<open>patternForm\<close> is what the
  pattern itself spells out: any account text, a type key, anything that ends with a
  slash, a name; none of them with a newline, account and name not empty.
\<close>

definition renderForm :: "string \<Rightarrow> bool" where
  "renderForm fp \<longleftrightarrow>
     (\<exists>acct k p n. fp = acct @ ''/'' @ k @ p @ n @ ''.yaml'' \<and> canonicalAccount acct \<and>
        k \<in> set typeKeys \<and> p \<noteq> [] \<and> hd p = CHR ''/'' \<and> last p = CHR ''/'')"

definition patternForm :: "string \<Rightarrow> bool" where
  "patternForm fp \<longleftrightarrow>
     (\<exists>acct k p n. fp = acct @ ''/'' @ k @ p @ ''/'' @ n @ ''.yaml'' \<and>
        acct \<noteq> [] \<and> plain acct \<and> k \<in> set typeKeys \<and> plain p \<and> n \<noteq> [] \<and> plain n)"

section \<open>The environment: file system and YAML library\<close>

text \<open>
  What the program asks of the operating system, of \<^verbatim>\<open>path/filepath\<close> and of the
  YAML library is a parameter of the model:
  \<^item> \<open>filepath_Walk\<close>: the calls \<^verbatim>\<open>filepath.Walk\<close> makes to its function for a root, in
    order, each with a path, whether it is a directory, and the error of visiting it;
  \<^item> \<open>filepath_Rel\<close>, \<open>filepath_Join\<close>, \<open>filepath_Dir\<close>: the functions of these names;
  \<^item> \<open>ioutil_ReadFile\<close>: the result of reading a path;
  \<^item> \<open>yaml_Unmarshal_User\<close> and its three siblings: what \<^verbatim>\<open>yaml.Unmarshal\<close> makes of a
    file's bytes for a fresh value of that type;
  \<^item> \<open>yaml_Marshal\<close>: the bytes for the fields the struct tags export;
  \<^item> \<open>os_RemoveAll_err\<close>, \<open>os_MkdirAll_err\<close>, \<open>ioutil_WriteFile_err\<close>: whether the call
    on that path fails.
\<close>

record env =
  filepath_Walk :: "string \<Rightarrow> (string \<times> bool \<times> error option) list"
  filepath_Rel :: "string \<Rightarrow> string \<Rightarrow> error + string"
  filepath_Join :: "string \<Rightarrow> string \<Rightarrow> string"
  filepath_Dir :: "string \<Rightarrow> string"
  ioutil_ReadFile :: "string \<Rightarrow> error + string"
  yaml_Unmarshal_User :: "string \<Rightarrow> error + User"
  yaml_Unmarshal_Group :: "string \<Rightarrow> error + Group"
  yaml_Unmarshal_Role :: "string \<Rightarrow> error + Role"
  yaml_Unmarshal_Policy :: "string \<Rightarrow> error + Policy"
  yaml_Marshal :: "(string \<times> yvalue) list \<Rightarrow> error + string"
  os_RemoveAll_err :: "string \<Rightarrow> error option"
  os_MkdirAll_err :: "string \<Rightarrow> error option"
  ioutil_WriteFile_err :: "string \<Rightarrow> error option"

text \<open>The regular files of the file system: path to contents.\<close>

type_synonym store = "string \<rightharpoonup> string"

text \<open>\<open>within d p\<close>: the path \<open>p\<close> is \<open>d\<close> or lies in the tree below \<open>d\<close>.\<close>

definition within :: "string \<Rightarrow> string \<Rightarrow> bool" where
  "within d p \<longleftrightarrow> p = d \<or> prefix (if d = ''/'' then d else d @ ''/'') p"

text \<open>
  \<^verbatim>\<open>os.RemoveAll\<close> removes the path and everything below it; \<^verbatim>\<open>ioutil.WriteFile\<close>
  creates or replaces one file. A call that fails leaves the files as they were.
\<close>

definition RemoveAll :: "env \<Rightarrow> string \<Rightarrow> store \<Rightarrow> store \<times> error option" where
  "RemoveAll e path st =
     (case os_RemoveAll_err e path of
        Some err \<Rightarrow> (st, Some err)
      | None \<Rightarrow> ((\<lambda>p. if within path p then None else st p), None))"

definition WriteFile :: "env \<Rightarrow> string \<Rightarrow> string \<Rightarrow> store \<Rightarrow> store \<times> error option" where
  "WriteFile e path b st =
     (case ioutil_WriteFile_err e path of
        Some err \<Rightarrow> (st, Some err)
      | None \<Rightarrow> (st(path \<mapsto> b), None))"

section \<open>Loading\<close>

text \<open>\<^verbatim>\<open>getFilesRecursively\<close>: the function passed to \<^verbatim>\<open>filepath.Walk\<close>, call by call.\<close>

fun walkFiles ::
  "YamlLoadDumper \<Rightarrow> env \<Rightarrow> (string \<times> bool \<times> error option) list \<Rightarrow> string list
     \<Rightarrow> string list \<times> error option" where
  "walkFiles a e [] paths = (paths, None)"
| "walkFiles a e ((path, isDir, err) # calls) paths =
     (case err of
        Some x \<Rightarrow> (paths, Some x)
      | None \<Rightarrow>
          (case filepath_Rel e (Dir a) path of
             Inl x \<Rightarrow> (paths, Some x)
           | Inr rel \<Rightarrow> walkFiles a e calls (if \<not> isDir then paths @ [rel] else paths)))"

definition getFilesRecursively :: "YamlLoadDumper \<Rightarrow> env \<Rightarrow> string list \<times> error option" where
  "getFilesRecursively a e = walkFiles a e (filepath_Walk e (Dir a)) []"

definition unmarshalYamlFile ::
  "YamlLoadDumper \<Rightarrow> env \<Rightarrow> (string \<Rightarrow> error + 'a) \<Rightarrow> string \<Rightarrow> error + 'a" where
  "unmarshalYamlFile f e unmarshal relativePath =
     (case ioutil_ReadFile e (filepath_Join e (Dir f) relativePath) of
        Inl err \<Rightarrow> Inl err
      | Inr data \<Rightarrow> unmarshal data)"

text \<open>
  The map \<^verbatim>\<open>accounts\<close> of \<^verbatim>\<open>Load\<close>, kept in the order its keys were first seen (Go
  ranges over a map in no fixed order: the order of the returned slice is one of many).
\<close>

type_synonym accounts = "(string \<times> AccountData) list"

definition modify :: "string \<Rightarrow> (AccountData \<Rightarrow> AccountData) \<Rightarrow> accounts \<Rightarrow> accounts" where
  "modify k f accts = map (\<lambda>(k', v). if k' = k then (k', f v) else (k', v)) accts"

text \<open>
  The result of \<^verbatim>\<open>Load\<close>: it panics, or returns the accounts and an error;
  \<open>Ok ([], Some err)\<close> is \<^verbatim>\<open>return nil, err\<close>. \<open>loadFile\<close> is one round of the loop over
  the files: \<open>Inr\<close> the accounts to go on with, \<open>Inl\<close> the result \<^verbatim>\<open>Load\<close> ends with;
  \<open>loadMatched\<close> is the branch of a path that matched, with the four values read from
  the match. The first component is the log.
\<close>

type_synonym outcome = "(AccountData list \<times> error option) result"

definition loadMatched ::
  "YamlLoadDumper \<Rightarrow> env \<Rightarrow> string \<Rightarrow> string \<Rightarrow> string \<Rightarrow> string \<Rightarrow> string
     \<Rightarrow> string list \<times> accounts \<Rightarrow> string list \<times> (outcome + accounts)" where
  "loadMatched a e fp accountid entity path name st =
     (let (lg, accts) = st; lg1 = lg @ [''Loading '' @ fp] in
      case (if map_of accts accountid = None
            then (case NewAccountData accountid of
                    Panic m \<Rightarrow> Panic m
                  | Ok d \<Rightarrow> Ok (accts @ [(accountid, d)]))
            else Ok accts) of
        Panic m \<Rightarrow> (lg1, Inl (Panic m))
      | Ok accts1 \<Rightarrow>
          if entity = ''user'' then
            (case unmarshalYamlFile a e (yaml_Unmarshal_User e) fp of
               Inl err \<Rightarrow> (lg1, Inl (Ok ([], Some err)))
             | Inr u \<Rightarrow>
                 (lg1, Inr (modify accountid
                    (addUser (u\<lparr> UserName := name, UserPath := path \<rparr>)) accts1)))
          else if entity = ''group'' then
            (case unmarshalYamlFile a e (yaml_Unmarshal_Group e) fp of
               Inl err \<Rightarrow> (lg1, Inl (Ok ([], Some err)))
             | Inr g \<Rightarrow>
                 (lg1, Inr (modify accountid
                    (addGroup (g\<lparr> GroupName := name, GroupPath := path \<rparr>)) accts1)))
          else if entity = ''role'' then
            (case unmarshalYamlFile a e (yaml_Unmarshal_Role e) fp of
               Inl err \<Rightarrow> (lg1, Inl (Ok ([], Some err)))
             | Inr r \<Rightarrow>
                 (lg1, Inr (modify accountid
                    (addRole (r\<lparr> RoleName := name, RolePath := path \<rparr>)) accts1)))
          else if entity = ''policy'' then
            (case unmarshalYamlFile a e (yaml_Unmarshal_Policy e) fp of
               Inl err \<Rightarrow> (lg1, Inl (Ok ([], Some err)))
             | Inr p \<Rightarrow>
                 (lg1, Inr (modify accountid
                    (addPolicy (p\<lparr> PolicyName := name, PolicyPath := path \<rparr>)) accts1)))
          else (lg1, Inl (Panic ''Unexpected entity'')))"

definition loadFile ::
  "YamlLoadDumper \<Rightarrow> env \<Rightarrow> string \<Rightarrow> string list \<times> accounts
     \<Rightarrow> string list \<times> (outcome + accounts)" where
  "loadFile a e fp st =
     (let (matched, result) = namedMatch (pathRegex a) fp in
      if matched then
        loadMatched a e fp (at result ''account'') (at result ''entity'')
          (at result ''path'') (at result ''name'') st
      else (fst st @ [''Skipping '' @ fp], Inr (snd st)))"

fun loadFiles ::
  "YamlLoadDumper \<Rightarrow> env \<Rightarrow> string list \<Rightarrow> string list \<times> accounts
     \<Rightarrow> string list \<times> outcome" where
  "loadFiles a e [] st = (fst st, Ok (map snd (snd st), None))"
| "loadFiles a e (fp # fps) st =
     (case loadFile a e fp st of
        (lg, Inl out) \<Rightarrow> (lg, out)
      | (lg, Inr accts) \<Rightarrow> loadFiles a e fps (lg, accts))"

definition Load :: "YamlLoadDumper \<Rightarrow> env \<Rightarrow> string list \<times> outcome" where
  "Load a e =
     (let lg = [''Loading YAML IAM data from '' @ Dir a] in
      case getFilesRecursively a e of
        (allFiles, Some err) \<Rightarrow> (lg, Ok ([], Some err))
      | (allFiles, None) \<Rightarrow> loadFiles a e allFiles (lg, []))"



definition located :: "string list \<Rightarrow> string \<Rightarrow> string \<Rightarrow> string \<Rightarrow> bool" where
  "located fps k n p =
     list_ex (\<lambda>fp. case pathComponents fp of
                     None \<Rightarrow> False
                   | Some (acct, entity, path, name) \<Rightarrow> entity = k \<and> path = p \<and> name = n) fps"

definition identityFromPath :: "string list \<Rightarrow> AccountData \<Rightarrow> bool" where
  "identityFromPath fps d \<longleftrightarrow>
     list_all (\<lambda>u. located fps ''user'' (UserName u) (UserPath u)) (Users d) \<and>
     list_all (\<lambda>g. located fps ''group'' (GroupName g) (GroupPath g)) (Groups d) \<and>
     list_all (\<lambda>r. located fps ''role'' (RoleName r) (RolePath r)) (Roles d) \<and>
     list_all (\<lambda>p. located fps ''policy'' (PolicyName p) (PolicyPath p)) (Policies d)"

section \<open>Dumping\<close>

text \<open>
  The fields of a resource the YAML library sees, from the struct tags: \<^verbatim>\<open>yaml:"-"\<close>
  hides \<^verbatim>\<open>Name\<close> and \<^verbatim>\<open>Path\<close>, \<^verbatim>\<open>omitempty\<close> leaves an empty slice out.
\<close>

definition inlinePolicyValue :: "InlinePolicy \<Rightarrow> yvalue" where
  "inlinePolicyValue p =
     YMap [(''Name'', YStr (InlinePolicyName p)), (''Policy'', YMap (InlinePolicyPolicy p))]"

definition omitempty :: "string \<Rightarrow> yvalue list \<Rightarrow> (string \<times> yvalue) list" where
  "omitempty key vs = (if vs = [] then [] else [(key, YSeq vs)])"

fun yamlFields :: "AwsResource \<Rightarrow> (string \<times> yvalue) list" where
  "yamlFields (AUser u) =
     omitempty ''Groups'' (map YStr (UserGroups u)) @
     omitempty ''InlinePolicies'' (map inlinePolicyValue (UserInlinePolicies u)) @
     omitempty ''Policies'' (map YStr (UserPolicies u))"
| "yamlFields (AGroup g) =
     omitempty ''InlinePolicies'' (map inlinePolicyValue (GroupInlinePolicies g)) @
     omitempty ''Policies'' (map YStr (GroupPolicies g))"
| "yamlFields (APolicy p) = [(''Policy'', YMap (PolicyPolicy p))]"
| "yamlFields (ARole r) =
     [(''AssumeRolePolicyDocument'', YMap (RoleAssumeRolePolicyDocument r))] @
     omitempty ''InlinePolicies'' (map inlinePolicyValue (RoleInlinePolicies r)) @
     omitempty ''Policies'' (map YStr (RolePolicies r))"

definition writeYamlFile :: "env \<Rightarrow> string \<Rightarrow> AwsResource \<Rightarrow> store \<Rightarrow> store \<times> error option" where
  "writeYamlFile e path thing st =
     (case yaml_Marshal e (yamlFields thing) of
        Inl err \<Rightarrow> (st, Some err)
      | Inr b \<Rightarrow>
          (case os_MkdirAll_err e (filepath_Dir e path) of
             Some err \<Rightarrow> (st, Some err)
           | None \<Rightarrow> WriteFile e path b st))"

text \<open>
  \<^verbatim>\<open>writeUser\<close>, \<^verbatim>\<open>writeGroup\<close>, \<^verbatim>\<open>writePolicy\<close> and \<^verbatim>\<open>writeRole\<close> differ in the type
  of the resource only.
\<close>

definition writeResource ::
  "YamlLoadDumper \<Rightarrow> env \<Rightarrow> Account \<Rightarrow> AwsResource \<Rightarrow> store \<Rightarrow> store \<times> error option" where
  "writeResource f e a r st =
     (case renderPath (pathTemplate f) a r of
        Inl err \<Rightarrow> (st, Some err)
      | Inr path \<Rightarrow> writeYamlFile e (filepath_Join e (Dir f) path) r st)"

definition writeUser :: "YamlLoadDumper \<Rightarrow> env \<Rightarrow> Account \<Rightarrow> User \<Rightarrow> store \<Rightarrow> store \<times> error option" where
  "writeUser f e a u = writeResource f e a (AUser u)"

definition writeGroup :: "YamlLoadDumper \<Rightarrow> env \<Rightarrow> Account \<Rightarrow> Group \<Rightarrow> store \<Rightarrow> store \<times> error option" where
  "writeGroup f e a g = writeResource f e a (AGroup g)"

definition writePolicy :: "YamlLoadDumper \<Rightarrow> env \<Rightarrow> Account \<Rightarrow> Policy \<Rightarrow> store \<Rightarrow> store \<times> error option" where
  "writePolicy f e a p = writeResource f e a (APolicy p)"

definition writeRole :: "YamlLoadDumper \<Rightarrow> env \<Rightarrow> Account \<Rightarrow> Role \<Rightarrow> store \<Rightarrow> store \<times> error option" where
  "writeRole f e a r = writeResource f e a (ARole r)"

text \<open>A loop that returns at the first error.\<close>

fun forEach :: "('a \<Rightarrow> store \<Rightarrow> store \<times> error option) \<Rightarrow> 'a list \<Rightarrow> store \<Rightarrow> store \<times> error option" where
  "forEach w [] st = (st, None)"
| "forEach w (x # xs) st =
     (case w x st of
        (st1, Some err) \<Rightarrow> (st1, Some err)
      | (st1, None) \<Rightarrow> forEach w xs st1)"

text \<open>\<^verbatim>\<open>Dump\<close>: the files afterwards, the log, and the error returned.\<close>

definition Dump ::
  "YamlLoadDumper \<Rightarrow> env \<Rightarrow> AccountData \<Rightarrow> bool \<Rightarrow> store \<Rightarrow> store \<times> string list \<times> error option" where
  "Dump f e accountData canDelete st =
     (let destDir = filepath_Join e (Dir f) (String (DataAccount accountData));
          lg = [''Dumping YAML IAM data to '' @ Dir f] in
      case (if canDelete then RemoveAll e destDir st else (st, None)) of
        (st0, Some err) \<Rightarrow> (st0, lg, Some err)
      | (st0, None) \<Rightarrow>
      (case forEach (writeUser f e (DataAccount accountData)) (Users accountData) st0 of
        (st1, Some err) \<Rightarrow> (st1, lg, Some err)
      | (st1, None) \<Rightarrow>
      (case forEach (writePolicy f e (DataAccount accountData)) (Policies accountData) st1 of
        (st2, Some err) \<Rightarrow> (st2, lg, Some err)
      | (st2, None) \<Rightarrow>
      (case forEach (writeGroup f e (DataAccount accountData)) (Groups accountData) st2 of
        (st3, Some err) \<Rightarrow> (st3, lg, Some err)
      | (st3, None) \<Rightarrow>
      (case forEach (writeRole f e (DataAccount accountData)) (Roles accountData) st3 of
        (st4, Some err) \<Rightarrow> (st4, lg, Some err)
      | (st4, None) \<Rightarrow> (st4, lg, None))))))"

text \<open>
  Words for the statements about \<^verbatim>\<open>Dump\<close>: the resources of an account in the order
  \<^verbatim>\<open>Dump\<close> writes them; the file \<^verbatim>\<open>Dump\<close> writes a resource to, under the program's
  template and the directory \<open>d\<close>; a resource with another name and path.
\<close>

definition resources :: "AccountData \<Rightarrow> AwsResource list" where
  "resources d =
     map AUser (Users d) @ map APolicy (Policies d) @ map AGroup (Groups d) @ map ARole (Roles d)"

definition dumpPath :: "env \<Rightarrow> string \<Rightarrow> Account \<Rightarrow> AwsResource \<Rightarrow> string" where
  "dumpPath e d a r =
     filepath_Join e d (String a @ ''/'' @ Type r @ PathString r @ NameString r @ ''.yaml'')"

fun withIdentity :: "string \<Rightarrow> string \<Rightarrow> AwsResource \<Rightarrow> AwsResource" where
  "withIdentity n p (AUser u) = AUser (u\<lparr> UserName := n, UserPath := p \<rparr>)"
| "withIdentity n p (AGroup g) = AGroup (g\<lparr> GroupName := n, GroupPath := p \<rparr>)"
| "withIdentity n p (APolicy q) = APolicy (q\<lparr> PolicyName := n, PolicyPath := p \<rparr>)"
| "withIdentity n p (ARole r) = ARole (r\<lparr> RoleName := n, RolePath := p \<rparr>)"

section \<open>An example environment\<close>

text \<open>
  A small environment to run the program in: the walk visits the root and then the
  given entries (relative path, and whether it is a directory), paths are joined with
  a slash, reading a file is a parameter, the YAML decoder knows one user document, the
  encoder prints the field names, and no write or removal fails.
\<close>

definition tree :: "(string \<times> bool) list \<Rightarrow> (string \<Rightarrow> error + string) \<Rightarrow> env" where
  "tree entries read = \<lparr>
     filepath_Walk =
       (\<lambda>root. (root, True, None) # map (\<lambda>(p, isDir). (root @ ''/'' @ p, isDir, None)) entries),
     filepath_Rel = (\<lambda>base p. if p = base then Inr ''.'' else Inr (drop (Suc (length base)) p)),
     filepath_Join = (\<lambda>d p. d @ ''/'' @ p),
     filepath_Dir = (\<lambda>p. rev (drop 1 (dropWhile (\<lambda>c. c \<noteq> CHR ''/'') (rev p)))),
     ioutil_ReadFile = read,
     yaml_Unmarshal_User = (\<lambda>b. if b = ''Policies: [ReadOnly]''
        then Inr \<lparr> UserName = [], UserPath = [], UserGroups = [], UserInlinePolicies = [],
                   UserPolicies = [''ReadOnly''] \<rparr>
        else Inl (Error ''yaml: unmarshal errors'')),
     yaml_Unmarshal_Group = (\<lambda>b. Inl (Error ''yaml: unmarshal errors'')),
     yaml_Unmarshal_Role = (\<lambda>b. Inl (Error ''yaml: unmarshal errors'')),
     yaml_Unmarshal_Policy = (\<lambda>b. Inl (Error ''yaml: unmarshal errors'')),
     yaml_Marshal = (\<lambda>fields. Inr (concat (map (\<lambda>(k, v). k @ '': ...; '') fields))),
     os_RemoveAll_err = (\<lambda>p. None),
     os_MkdirAll_err = (\<lambda>p. None),
     ioutil_WriteFile_err = (\<lambda>p. None) \<rparr>"

text \<open>
  The spec's scenario: under the root, \<^verbatim>\<open>prod-123456789012/user/bob.yaml\<close> holding
  \<^verbatim>\<open>Policies: [ReadOnly]\<close>, and beside it a \<^verbatim>\<open>readme.txt\<close>. And a tree whose only file,
  \<^verbatim>\<open>notes/user/bob.yaml\<close>, cannot be read.
\<close>

definition bobTree :: env where
  "bobTree =
     tree [(''prod-123456789012'', True), (''prod-123456789012/user'', True),
           (''prod-123456789012/user/bob.yaml'', False), (''readme.txt'', False)]
       (\<lambda>p. if p = ''root/prod-123456789012/user/bob.yaml'' then Inr ''Policies: [ReadOnly]''
            else Inl (Error ''open: no such file''))"



text \<open>
  A tree written by a dump of the account 123 with the user \<^verbatim>\<open>bob\<close> at the path \<^verbatim>\<open>/users/\<close>:
  its only file is \<^verbatim>\<open>123/user/users/bob.yaml\<close>.
\<close>

definition usersTree :: env where
  "usersTree =
     tree [(''123'', True), (''123/user'', True), (''123/user/users'', True),
           (''123/user/users/bob.yaml'', False)]
       (\<lambda>p. if p = ''root/123/user/users/bob.yaml'' then Inr ''Policies: [ReadOnly]''
            else Inl (Error ''open: no such file''))"

text \<open>
  The spec's scenario for a dump: the account 999 with the role \<^verbatim>\<open>deploy\<close> at \<^verbatim>\<open>/svc/\<close>,
  written under a root that holds a stray file of that account and a file beside the
  account's directory.
\<close>

definition quietEnv :: env where
  "quietEnv = tree [] (\<lambda>p. Inl (Error ''open: no such file''))"

definition deployData :: AccountData where
  "deployData = \<lparr> DataAccount = \<lparr>AccountId = ''999'', AccountAlias = []\<rparr>,
     Users = [], Groups = [],
     Roles = [\<lparr> RoleName = ''deploy'', RolePath = ''/svc/'',
        RoleAssumeRolePolicyDocument = [(''Version'', YStr ''2012-10-17'')],
        RoleInlinePolicies = [], RolePolicies = [] \<rparr>],
     Policies = [] \<rparr>"

definition strayStore :: store where
  "strayStore = [''root/999/stray.txt'' \<mapsto> ''old'', ''root/other.txt'' \<mapsto> ''keep'']"

section \<open>Properties of the backtracking search\<close>

lemma le_length_takeWhile:
  "n \<le> length (takeWhile P s) \<longleftrightarrow> n \<le> length s \<and> list_all P (take n s)"
proof (induction s arbitrary: n)
  case Nil
  then show ?case by simp
next
  case (Cons x xs)
  then show ?case by (cases n) auto
qed

lemma run_split:
  "(\<exists>n. lo \<le> n \<and> n \<le> length (takeWhile P s) \<and> s' = drop n s) \<longleftrightarrow>
   (\<exists>m. s = m @ s' \<and> lo \<le> length m \<and> list_all P m)"
proof
  assume "\<exists>n. lo \<le> n \<and> n \<le> length (takeWhile P s) \<and> s' = drop n s"
  then obtain n where n: "lo \<le> n" "n \<le> length (takeWhile P s)" "s' = drop n s" by blast
  then have "n \<le> length s" "list_all P (take n s)" by (simp_all add: le_length_takeWhile)
  with n have "s = take n s @ s' \<and> lo \<le> length (take n s) \<and> list_all P (take n s)" by simp
  then show "\<exists>m. s = m @ s' \<and> lo \<le> length m \<and> list_all P m" by blast
next
  assume "\<exists>m. s = m @ s' \<and> lo \<le> length m \<and> list_all P m"
  then obtain m where m: "s = m @ s'" "lo \<le> length m" "list_all P m" by blast
  then have "length m \<le> length (takeWhile P s)" by (simp add: le_length_takeWhile)
  with m have "lo \<le> length m \<and> length m \<le> length (takeWhile P s) \<and> s' = drop (length m) s" by simp
  then show "\<exists>n. lo \<le> n \<and> n \<le> length (takeWhile P s) \<and> s' = drop n s" by blast
qed

lemma set_run:
  "(s', c') \<in> set (map (\<lambda>n. (drop n s, c)) (rev [lo ..< Suc r])) \<longleftrightarrow>
     c' = c \<and> (\<exists>n. lo \<le> n \<and> n \<le> r \<and> s' = drop n s)"
proof -
  have "set (rev [lo ..< Suc r]) = {n. lo \<le> n \<and> n \<le> r}"
    unfolding set_rev set_upt by auto
  then show ?thesis unfolding set_map by auto
qed

lemma in_backtrack_Star:
  "(s', c') \<in> set (backtrack t (Star k) s c) \<longleftrightarrow>
     c' = c \<and> (\<exists>m. s = m @ s' \<and> list_all (in_class k) m)"
proof -
  have "(s', c') \<in> set (backtrack t (Star k) s c) \<longleftrightarrow>
        c' = c \<and> (\<exists>n. 0 \<le> n \<and> n \<le> length (takeWhile (in_class k) s) \<and> s' = drop n s)"
    unfolding backtrack.simps set_run ..
  then show ?thesis unfolding run_split by simp
qed

lemma in_backtrack_Plus:
  "(s', c') \<in> set (backtrack t (Plus k) s c) \<longleftrightarrow>
     c' = c \<and> (\<exists>m. s = m @ s' \<and> m \<noteq> [] \<and> list_all (in_class k) m)"
proof -
  have "(s', c') \<in> set (backtrack t (Plus k) s c) \<longleftrightarrow>
        c' = c \<and> (\<exists>n. 1 \<le> n \<and> n \<le> length (takeWhile (in_class k) s) \<and> s' = drop n s)"
    unfolding backtrack.simps set_run ..
  also have "\<dots> \<longleftrightarrow> c' = c \<and> (\<exists>m. s = m @ s' \<and> 1 \<le> length m \<and> list_all (in_class k) m)"
    unfolding run_split ..
  also have "\<dots> \<longleftrightarrow> c' = c \<and> (\<exists>m. s = m @ s' \<and> m \<noteq> [] \<and> list_all (in_class k) m)"
    by (simp add: Suc_le_eq)
  finally show ?thesis .
qed

lemma in_backtrack_Lit:
  "(s', c') \<in> set (backtrack t (Lit l) s c) \<longleftrightarrow> s = l @ s' \<and> c' = c"
  by (auto simp: prefix_def)

lemma in_backtrack_Bot:
  "(s', c') \<in> set (backtrack t Bot s c) \<longleftrightarrow> s = t \<and> s' = s \<and> c' = c"
  by auto

lemma in_backtrack_Eot:
  "(s', c') \<in> set (backtrack t Eot s c) \<longleftrightarrow> s = [] \<and> s' = [] \<and> c' = c"
  by auto

lemma in_backtrack_Cat:
  "(s', c') \<in> set (backtrack t (Cat a b) s c) \<longleftrightarrow>
     (\<exists>s1 c1. (s1, c1) \<in> set (backtrack t a s c) \<and> (s', c') \<in> set (backtrack t b s1 c1))"
  by auto

lemma in_backtrack_Alt:
  "(s', c') \<in> set (backtrack t (Alt a b) s c) \<longleftrightarrow>
     (s', c') \<in> set (backtrack t a s c) \<or> (s', c') \<in> set (backtrack t b s c)"
  by auto

lemma in_backtrack_Opt:
  "(s', c') \<in> set (backtrack t (Opt a) s c) \<longleftrightarrow>
     (s', c') \<in> set (backtrack t a s c) \<or> (s' = s \<and> c' = c)"
  by auto

lemma in_backtrack_Cap:
  "(s', c') \<in> set (backtrack t (Cap i a) s c) \<longleftrightarrow>
     (\<exists>c1. (s', c1) \<in> set (backtrack t a s c) \<and> c' = c1[i := take (length s - length s') s])"
  by auto

lemmas in_backtrack = in_backtrack_Bot in_backtrack_Eot in_backtrack_Lit in_backtrack_Star
  in_backtrack_Plus in_backtrack_Cat in_backtrack_Alt in_backtrack_Opt in_backtrack_Cap

lemma scan_anchored_tail:
  "length s < length t \<Longrightarrow> prog r = Cat Bot b \<Longrightarrow> scan r t s = []"
proof (induction s)
  case Nil
  then show ?case by (subst scan.simps) auto
next
  case (Cons x xs)
  then have "x # xs \<noteq> t" by auto
  with Cons show ?case by (subst scan.simps) simp
qed

lemma FindStringSubmatch_anchored:
  assumes "prog r = Cat Bot b"
  shows "FindStringSubmatch r t =
     (case backtrack t b t (replicate (Suc (numSubexp r)) []) of
        (s1, c) # _ \<Rightarrow> c[0 := take (length t - length s1) t]
      | [] \<Rightarrow> [])"
proof (cases t)
  case Nil
  with assms show ?thesis
    unfolding FindStringSubmatch_def by (subst scan.simps) (auto split: list.splits)
next
  case (Cons x xs)
  have "scan r t xs = []" using assms Cons by (intro scan_anchored_tail) auto
  with assms Cons show ?thesis
    unfolding FindStringSubmatch_def by (subst scan.simps) (auto split: list.splits)
qed

lemma FindStringSubmatch_cases:
  assumes "prog r = Cat Bot b"
  obtains (nomatch) "backtrack t b t (replicate (Suc (numSubexp r)) []) = []"
                    "FindStringSubmatch r t = []"
  | (match) s1 c where "(s1, c) \<in> set (backtrack t b t (replicate (Suc (numSubexp r)) []))"
                    "FindStringSubmatch r t = c[0 := take (length t - length s1) t]"
proof (cases "backtrack t b t (replicate (Suc (numSubexp r)) [])")
  case Nil
  then show ?thesis using nomatch FindStringSubmatch_anchored [OF assms, of t] by simp
next
  case (Cons p ps)
  obtain s1 c where p: "p = (s1, c)" by (cases p)
  with Cons have "(s1, c) \<in> set (backtrack t b t (replicate (Suc (numSubexp r)) []))" by simp
  moreover have "FindStringSubmatch r t = c[0 := take (length t - length s1) t]"
    using Cons p FindStringSubmatch_anchored [OF assms, of t] by simp
  ultimately show ?thesis using match by blast
qed

lemma accountReg_prog:
  "prog accountReg = Cat Bot (Cat (Opt (Cap 1 (Cat (Cap 2 (Plus WordOrHyphen)) (Lit ''-''))))
                    (Cat (Cap 3 (Plus Digit)) Eot))"
  "numSubexp accountReg = 3"
  by (simp_all add: accountReg_def)

lemma alias_part:
  "(s1, c1) \<in> set (backtrack t (Cap 1 (Cat (Cap 2 (Plus WordOrHyphen)) (Lit ''-''))) s c) \<longleftrightarrow>
   (\<exists>alias. s = alias @ ''-'' @ s1 \<and> alias \<noteq> [] \<and>
      list_all (in_class WordOrHyphen) alias \<and> c1 = c[2 := alias, 1 := alias @ ''-''])"
  unfolding in_backtrack by auto

lemma in_class_Digit [simp]: "in_class Digit = is_digit"
  by (rule ext) simp

lemma id_part:
  "(s1, c1) \<in> set (backtrack t (Cat (Cap 3 (Plus Digit)) Eot) s c) \<longleftrightarrow>
   s1 = [] \<and> bareAccountId s \<and> c1 = c[3 := s]"
  unfolding in_backtrack bareAccountId_def by auto

lemma accountReg_in:
  "(s1, c) \<in> set (backtrack s (Cat (Opt (Cap 1 (Cat (Cap 2 (Plus WordOrHyphen)) (Lit ''-''))))
                    (Cat (Cap 3 (Plus Digit)) Eot)) s [[], [], [], []]) \<longleftrightarrow>
   s1 = [] \<and>
   ((bareAccountId s \<and> c = [[], [], [], s]) \<or>
    (\<exists>alias ident. s = alias @ ''-'' @ ident \<and> alias \<noteq> [] \<and>
        list_all (in_class WordOrHyphen) alias \<and> bareAccountId ident \<and>
        c = [[], alias @ ''-'', alias, ident]))"
  (is "?L \<longleftrightarrow> ?R")
proof
  assume ?L
  then show ?R
    unfolding in_backtrack_Cat [of _ _ _ "Opt _"] in_backtrack_Opt alias_part id_part
    by auto
next
  assume r: ?R
  let ?c0 = "[[], [], [], []] :: string list"
  from r consider (bare) "bareAccountId s" "c = [[], [], [], s]" "s1 = []"
    | (aliased) al ident where "s = al @ ''-'' @ ident" "al \<noteq> []"
        "list_all (in_class WordOrHyphen) al" "bareAccountId ident"
        "c = [[], al @ ''-'', al, ident]" "s1 = []"
    by blast
  then show ?L
  proof cases
    case bare
    then have "(s = s \<and> ?c0 = ?c0) \<and> s1 = [] \<and> bareAccountId s \<and> c = ?c0[3 := s]"
      by simp
    then show ?thesis
      unfolding in_backtrack_Cat [of _ _ _ "Opt _"] in_backtrack_Opt alias_part id_part
      by blast
  next
    case aliased
    then have "(\<exists>a. s = a @ ''-'' @ ident \<and> a \<noteq> [] \<and>
        list_all (in_class WordOrHyphen) a \<and> ?c0[2 := al, 1 := al @ ''-''] = ?c0[2 := a, 1 := a @ ''-''])
      \<and> s1 = [] \<and> bareAccountId ident \<and> c = (?c0[2 := al, 1 := al @ ''-''])[3 := ident]"
      by auto
    then show ?thesis
      unfolding in_backtrack_Cat [of _ _ _ "Opt _"] in_backtrack_Opt alias_part id_part
      by blast
  qed
qed

section \<open>The account codec\<close>

lemma replicate4: "replicate (Suc 3) x = [x, x, x, x]"
  by (simp add: eval_nat_numeral)

lemma accountReg_cases:
  obtains (nomatch) "backtrack s (Cat (Opt (Cap 1 (Cat (Cap 2 (Plus WordOrHyphen)) (Lit ''-''))))
                    (Cat (Cap 3 (Plus Digit)) Eot)) s [[], [], [], []] = []"
                    "FindStringSubmatch accountReg s = []"
  | (match) s1 c where "(s1, c) \<in> set (backtrack s (Cat (Opt (Cap 1 (Cat (Cap 2 (Plus WordOrHyphen)) (Lit ''-''))))
                    (Cat (Cap 3 (Plus Digit)) Eot)) s [[], [], [], []])"
                    "FindStringSubmatch accountReg s = c[0 := take (length s - length s1) s]"
  using FindStringSubmatch_cases [OF accountReg_prog(1), of s]
  unfolding accountReg_prog replicate4 by blast

lemma accountReg_nomatch:
  assumes "\<not> bareAccountId s" "\<not> aliasAccountId s"
  shows "FindStringSubmatch accountReg s = []"
proof (cases s rule: accountReg_cases)
  case nomatch
  then show ?thesis by simp
next
  case (match s1 c)
  then have "(s1, c) \<in> set (backtrack s (Cat (Opt (Cap 1 (Cat (Cap 2 (Plus WordOrHyphen)) (Lit ''-''))))
                    (Cat (Cap 3 (Plus Digit)) Eot)) s [[], [], [], []])"
    by (simp del: backtrack.simps)
  with assms show ?thesis unfolding accountReg_in aliasAccountId_def by blast
qed

lemma accountReg_match:
  assumes "FindStringSubmatch accountReg s \<noteq> []"
  shows "(bareAccountId s \<and> FindStringSubmatch accountReg s = [s, [], [], s]) \<or>
         (\<exists>al ident. s = al @ ''-'' @ ident \<and> al \<noteq> [] \<and>
            list_all (in_class WordOrHyphen) al \<and> bareAccountId ident \<and>
            FindStringSubmatch accountReg s = [s, al @ ''-'', al, ident])"
proof (cases s rule: accountReg_cases)
  case nomatch
  with assms show ?thesis by simp
next
  case (match s1 c)
  then have "(s1, c) \<in> set (backtrack s (Cat (Opt (Cap 1 (Cat (Cap 2 (Plus WordOrHyphen)) (Lit ''-''))))
                    (Cat (Cap 3 (Plus Digit)) Eot)) s [[], [], [], []])"
    by (simp del: backtrack.simps)
  then have "s1 = [] \<and>
   ((bareAccountId s \<and> c = [[], [], [], s]) \<or>
    (\<exists>al ident. s = al @ ''-'' @ ident \<and> al \<noteq> [] \<and>
        list_all (in_class WordOrHyphen) al \<and> bareAccountId ident \<and>
        c = [[], al @ ''-'', al, ident]))"
    unfolding accountReg_in .
  with match(2) show ?thesis by auto
qed

lemma accountReg_accepts:
  assumes "bareAccountId s \<or> aliasAccountId s"
  shows "FindStringSubmatch accountReg s \<noteq> []"
proof (cases s rule: accountReg_cases)
  case nomatch
  then have "set (backtrack s (Cat (Opt (Cap 1 (Cat (Cap 2 (Plus WordOrHyphen)) (Lit ''-''))))
                    (Cat (Cap 3 (Plus Digit)) Eot)) s [[], [], [], []]) = {}"
    by (simp del: backtrack.simps)
  moreover from assms have "\<exists>c. ([], c) \<in> set (backtrack s (Cat (Opt (Cap 1 (Cat (Cap 2 (Plus WordOrHyphen)) (Lit ''-''))))
                    (Cat (Cap 3 (Plus Digit)) Eot)) s [[], [], [], []])"
    unfolding accountReg_in aliasAccountId_def by blast
  ultimately show ?thesis by (simp del: backtrack.simps)
next
  case (match s1 c)
  then have "(s1, c) \<in> set (backtrack s (Cat (Opt (Cap 1 (Cat (Cap 2 (Plus WordOrHyphen)) (Lit ''-''))))
                    (Cat (Cap 3 (Plus Digit)) Eot)) s [[], [], [], []])"
    by (simp del: backtrack.simps)
  then have "length c = 4" unfolding accountReg_in by auto
  with match(2) show ?thesis by auto
qed

lemma NewAccountFromString_Ok:
  assumes "NewAccountFromString s = Ok a"
  shows "String a = s \<and> bareAccountId (AccountId a) \<and>
         (AccountAlias a = [] \<or> list_all (in_class WordOrHyphen) (AccountAlias a))"
proof -
  have ne: "FindStringSubmatch accountReg s \<noteq> []"
    using assms by (auto simp: NewAccountFromString_def FindAllStringSubmatch_def Let_def split: if_splits)
  from accountReg_match [OF ne] show ?thesis
  proof (elim disjE exE conjE)
    assume "bareAccountId s" "FindStringSubmatch accountReg s = [s, [], [], s]"
    with assms show ?thesis
      by (auto simp: NewAccountFromString_def FindAllStringSubmatch_def String_def)
  next
    fix al ident
    assume "s = al @ ''-'' @ ident" "al \<noteq> []" "list_all (in_class WordOrHyphen) al"
      "bareAccountId ident" "FindStringSubmatch accountReg s = [s, al @ ''-'', al, ident]"
    with assms show ?thesis
      by (auto simp: NewAccountFromString_def FindAllStringSubmatch_def String_def)
  qed
qed

lemma NewAccountFromString_Panic:
  assumes "\<not> bareAccountId s" "\<not> aliasAccountId s"
  shows "NewAccountFromString s = Panic (''Can't create account name from '' @ s)"
  using accountReg_nomatch [OF assms]
  by (simp add: NewAccountFromString_def FindAllStringSubmatch_def)

lemma NewAccountFromString_accepts:
  assumes "bareAccountId s \<or> aliasAccountId s"
  shows "\<exists>a. NewAccountFromString s = Ok a"
proof -
  have ne: "FindStringSubmatch accountReg s \<noteq> []" using assms by (rule accountReg_accepts)
  from accountReg_match [OF ne] show ?thesis
    by (auto simp: NewAccountFromString_def FindAllStringSubmatch_def)
qed

lemma dash_not_digit: "list_all is_digit y \<Longrightarrow> CHR ''-'' \<notin> set y"
  by (induction y) (auto simp: is_digit_def)

lemma takeWhile_upto:
  "c \<notin> set y \<Longrightarrow> takeWhile (\<lambda>x. x \<noteq> c) (y @ c # z) = y"
  by (induction y) auto

lemma split_last_dash:
  assumes "x @ ''-'' @ y = x' @ ''-'' @ y'" "CHR ''-'' \<notin> set y" "CHR ''-'' \<notin> set y'"
  shows "x = x' \<and> y = y'"
proof -
  have "takeWhile (\<lambda>c. c \<noteq> CHR ''-'') (rev (x @ ''-'' @ y)) = rev y"
    using assms(2) by (simp add: takeWhile_upto)
  moreover have "takeWhile (\<lambda>c. c \<noteq> CHR ''-'') (rev (x' @ ''-'' @ y')) = rev y'"
    using assms(3) by (simp add: takeWhile_upto)
  ultimately have "y = y'" using assms(1) by (metis rev_is_rev_conv)
  with assms(1) show ?thesis by simp
qed

lemma String_inj:
  assumes "bareAccountId (AccountId a)" "bareAccountId (AccountId b)" "String a = String b"
  shows "a = b"
proof -
  have da: "CHR ''-'' \<notin> set (AccountId a)" and db: "CHR ''-'' \<notin> set (AccountId b)"
    using assms(1,2) by (simp_all add: bareAccountId_def dash_not_digit)
  show ?thesis
  proof (cases "AccountAlias a = []"; cases "AccountAlias b = []")
    assume "AccountAlias a = []" "AccountAlias b = []"
    with assms(3) show ?thesis by (simp add: String_def)
  next
    assume "AccountAlias a = []" "AccountAlias b \<noteq> []"
    with assms(3) have "AccountId a = AccountAlias b @ ''-'' @ AccountId b" by (simp add: String_def)
    then have "CHR ''-'' \<in> set (AccountId a)" by simp
    with da show ?thesis by simp
  next
    assume "AccountAlias a \<noteq> []" "AccountAlias b = []"
    with assms(3) have "AccountId b = AccountAlias a @ ''-'' @ AccountId a" by (simp add: String_def)
    then have "CHR ''-'' \<in> set (AccountId b)" by simp
    with db show ?thesis by simp
  next
    assume "AccountAlias a \<noteq> []" "AccountAlias b \<noteq> []"
    with assms(3) have "AccountAlias a @ ''-'' @ AccountId a = AccountAlias b @ ''-'' @ AccountId b"
      by (simp add: String_def)
    from split_last_dash [OF this da db] show ?thesis by simp
  qed
qed

subsection \<open>Policy references\<close>

text \<open>
  Claim C10. For every account and every policy reference that does not start with
  \<^verbatim>\<open>arn:\<close>, turning the bare name into the account's policy ARN and normalising it gives
  the name back; a reference that starts with \<^verbatim>\<open>arn:\<close> is returned as it is.
\<close>

theorem policy_arn_roundtrip:
  "(\<not> HasPrefix s ''arn:'' \<longrightarrow> normalisePolicyArn a (policyArnFromString a s) = s) \<and>
   (HasPrefix s ''arn:'' \<longrightarrow> policyArnFromString a s = s)"
  by (simp add: policyArnFromString_def normalisePolicyArn_def TrimPrefix_def HasPrefix_def)

theorem policy_arn_roundtrip_witness:
  "\<not> HasPrefix ''ReadOnly'' ''arn:'' \<and>
   normalisePolicyArn \<lparr>AccountId = ''123456789012'', AccountAlias = ''prod''\<rparr>
     (policyArnFromString \<lparr>AccountId = ''123456789012'', AccountAlias = ''prod''\<rparr> ''ReadOnly'') = ''ReadOnly'' \<and>
   policyArnFromString \<lparr>AccountId = ''123456789012'', AccountAlias = ''prod''\<rparr> ''ReadOnly''
     = ''arn:aws:iam::123456789012:policy/ReadOnly'' \<and>
   HasPrefix ''arn:aws:iam::aws:policy/ReadOnlyAccess'' ''arn:'' \<and>
   policyArnFromString \<lparr>AccountId = ''123456789012'', AccountAlias = ''prod''\<rparr>
     ''arn:aws:iam::aws:policy/ReadOnlyAccess'' = ''arn:aws:iam::aws:policy/ReadOnlyAccess''"
  using policy_arn_roundtrip [of "''ReadOnly''" "\<lparr>AccountId = ''123456789012'', AccountAlias = ''prod''\<rparr>"]
    policy_arn_roundtrip [of "''arn:aws:iam::aws:policy/ReadOnlyAccess''" "\<lparr>AccountId = ''123456789012'', AccountAlias = ''prod''\<rparr>"]
  by (simp add: HasPrefix_def policyArnFromString_def)

subsection \<open>Malformed account strings\<close>

text \<open>
  Claim C7, as amended. For every string that is neither bare digits nor an alias
  followed by a hyphen and digits, \<^verbatim>\<open>NewAccountFromString\<close> panics with the message
  \<^verbatim>\<open>Can't create account name from\<close> and the string. The function has no error result:
  nothing is reported to the caller as a value.
\<close>

theorem malformed_account_panics:
  "\<not> bareAccountId s \<and> \<not> aliasAccountId s \<longrightarrow>
     NewAccountFromString s = Panic (''Can't create account name from '' @ s)"
  using NewAccountFromString_Panic by blast

lemma not_alias_without_dash: "CHR ''-'' \<notin> set s \<Longrightarrow> \<not> aliasAccountId s"
  by (auto simp: aliasAccountId_def)

theorem malformed_account_panics_witness:
  "\<not> bareAccountId ''production'' \<and> \<not> aliasAccountId ''production'' \<and>
   NewAccountFromString ''production'' = Panic ''Can't create account name from production''"
  using malformed_account_panics [of "''production''"]
  by (simp add: bareAccountId_def is_digit_def not_alias_without_dash)

text \<open>
  The claim as stated (the failure is an error handed to the caller, not an abort) is
  false at the string \<^verbatim>\<open>notes\<close>: the call panics.
\<close>

theorem malformed_account_counterexample:
  "\<not> (\<exists>a. NewAccountFromString ''notes'' = Ok a) \<and>
   NewAccountFromString ''notes'' = Panic ''Can't create account name from notes''"
proof -
  have "NewAccountFromString ''notes'' = Panic ''Can't create account name from notes''"
    by code_simp
  then show ?thesis by simp
qed

subsection \<open>Account strings\<close>

text \<open>
  Claim C3. An account's Id is a string of digits (the data model's invariant, and what
  \<^verbatim>\<open>NewAccountFromString\<close>, the only constructor, builds: the Id is the digits group of
  the pattern). For every such account whose string form \<^verbatim>\<open>NewAccountFromString\<close> accepts,
  parsing the string form gives the account back (the same Id and Alias); and every
  string of the accepted grammar (bare digits, or an alias of word characters and
  hyphens followed by a hyphen and digits) is accepted and formats back to itself.
\<close>

theorem account_roundtrip:
  "(bareAccountId (AccountId a) \<and> NewAccountFromString (String a) = Ok b \<longrightarrow> b = a) \<and>
   (bareAccountId s \<or> aliasAccountId s \<longrightarrow>
      (\<exists>a'. NewAccountFromString s = Ok a' \<and> String a' = s))"
proof (intro conjI impI)
  assume h: "bareAccountId (AccountId a) \<and> NewAccountFromString (String a) = Ok b"
  then have "String b = String a" "bareAccountId (AccountId b)"
    using NewAccountFromString_Ok [of "String a" b] by simp_all
  with h show "b = a" using String_inj [of b a] by simp
next
  assume "bareAccountId s \<or> aliasAccountId s"
  then obtain a' where "NewAccountFromString s = Ok a'"
    using NewAccountFromString_accepts by blast
  then show "\<exists>a'. NewAccountFromString s = Ok a' \<and> String a' = s"
    using NewAccountFromString_Ok by blast
qed

lemma aliasAccountId_example: "aliasAccountId ''prod-123456789012''"
proof -
  have "''prod-123456789012'' = ''prod'' @ ''-'' @ ''123456789012'' \<and> ''prod'' \<noteq> [] \<and>
        list_all (in_class WordOrHyphen) ''prod'' \<and> bareAccountId ''123456789012''"
    by (simp add: bareAccountId_def is_digit_def is_word_def)
  then show ?thesis unfolding aliasAccountId_def by blast
qed

theorem account_roundtrip_witness:
  "bareAccountId (AccountId \<lparr>AccountId = ''123456789012'', AccountAlias = ''prod''\<rparr>) \<and>
   NewAccountFromString (String \<lparr>AccountId = ''123456789012'', AccountAlias = ''prod''\<rparr>)
     = Ok \<lparr>AccountId = ''123456789012'', AccountAlias = ''prod''\<rparr> \<and>
   aliasAccountId ''prod-123456789012'' \<and>
   (\<exists>a'. NewAccountFromString ''prod-123456789012'' = Ok a' \<and> String a' = ''prod-123456789012'')"
proof -
  have 1: "bareAccountId (AccountId \<lparr>AccountId = ''123456789012'', AccountAlias = ''prod''\<rparr>)"
    by (simp add: bareAccountId_def is_digit_def)
  have 2: "NewAccountFromString (String \<lparr>AccountId = ''123456789012'', AccountAlias = ''prod''\<rparr>)
     = Ok \<lparr>AccountId = ''123456789012'', AccountAlias = ''prod''\<rparr>"
    by code_simp
  show ?thesis
    using 1 2 aliasAccountId_example
      account_roundtrip [of "\<lparr>AccountId = ''123456789012'', AccountAlias = ''prod''\<rparr>"
        "\<lparr>AccountId = ''123456789012'', AccountAlias = ''prod''\<rparr>" "''prod-123456789012''"]
    by blast
qed

section \<open>The path codec: matching\<close>

text \<open>The parts of the path pattern, named for the proofs.\<close>

definition nameRe :: re where
  "nameRe = Cat (Cap 5 (Plus AnyCharNotNL)) (Cat (Lit ''.yaml'') Eot)"

definition pathGroup :: re where
  "pathGroup = Cap 4 (Cat (Star AnyCharNotNL) (Lit ''/''))"

definition entityGroup :: re where
  "entityGroup = Cap 2 (Cap 3 (Alt (Lit ''user'') (Alt (Lit ''group'')
                           (Alt (Lit ''policy'') (Lit ''role'')))))"

definition tailRe :: re where
  "tailRe = Cat (Lit ''/'') (Cat entityGroup (Cat pathGroup nameRe))"

definition pathBody :: re where
  "pathBody = Cat (Cap 1 (Plus AnyCharNotNL)) tailRe"

lemma pathRegex_prog:
  "prog (pathRegex Yaml) = Cat Bot pathBody"
  "numSubexp (pathRegex Yaml) = 5"
  "subexpNames (pathRegex Yaml) = [[], ''account'', ''entity'', [], ''path'', ''name'']"
  by (simp_all add: Yaml_def pathBody_def tailRe_def entityGroup_def pathGroup_def nameRe_def)

lemma list_all_AnyCharNotNL [simp]: "list_all (in_class AnyCharNotNL) s = plain s"
  by (induction s) (auto simp: plain_def)

lemma plain_append [simp]: "plain (x @ y) \<longleftrightarrow> plain x \<and> plain y"
  by (auto simp: plain_def)

lemma in_nameRe:
  "(s', c') \<in> set (backtrack t nameRe s c) \<longleftrightarrow>
     s' = [] \<and> (\<exists>n. s = n @ ''.yaml'' \<and> n \<noteq> [] \<and> plain n \<and> c' = c[5 := n])"
  unfolding nameRe_def in_backtrack by auto

lemma in_pathGroup:
  "(s', c') \<in> set (backtrack t pathGroup s c) \<longleftrightarrow>
     (\<exists>p. s = p @ ''/'' @ s' \<and> plain p \<and> c' = c[4 := p @ ''/''])"
  unfolding pathGroup_def in_backtrack by auto

lemma in_typeKeyAlt:
  "(s', c') \<in> set (backtrack t (Alt (Lit ''user'') (Alt (Lit ''group'')
                           (Alt (Lit ''policy'') (Lit ''role'')))) s c) \<longleftrightarrow>
     c' = c \<and> (\<exists>k. k \<in> set typeKeys \<and> s = k @ s')"
proof -
  have "(\<exists>k. k \<in> set typeKeys \<and> s = k @ s') \<longleftrightarrow>
        s = ''user'' @ s' \<or> s = ''group'' @ s' \<or> s = ''policy'' @ s' \<or> s = ''role'' @ s'"
    unfolding typeKeys_def by (simp del: append.simps) blast
  then show ?thesis unfolding in_backtrack_Alt in_backtrack_Lit by blast
qed

lemma in_entityGroup:
  "(s', c') \<in> set (backtrack t entityGroup s c) \<longleftrightarrow>
     (\<exists>k. k \<in> set typeKeys \<and> s = k @ s' \<and> c' = c[3 := k, 2 := k])"
  (is "?L \<longleftrightarrow> ?R")
proof
  assume ?L
  then obtain k where "k \<in> set typeKeys" "s = k @ s'"
      "c' = c[3 := take (length s - length s') s, 2 := take (length s - length s') s]"
    unfolding entityGroup_def in_backtrack_Cap in_typeKeyAlt by blast
  then have "k \<in> set typeKeys \<and> s = k @ s' \<and> c' = c[3 := k, 2 := k]" by simp
  then show ?R by blast
next
  assume ?R
  then obtain k where "k \<in> set typeKeys" "s = k @ s'" "c' = c[3 := k, 2 := k]" by blast
  then have "(\<exists>k. k \<in> set typeKeys \<and> s = k @ s') \<and>
      c' = c[3 := take (length s - length s') s, 2 := take (length s - length s') s]"
    by auto
  then show ?L unfolding entityGroup_def in_backtrack_Cap in_typeKeyAlt by blast
qed

lemma in_accountGroup:
  "(s', c') \<in> set (backtrack t (Cap 1 (Plus AnyCharNotNL)) s c) \<longleftrightarrow>
     (\<exists>a. s = a @ s' \<and> a \<noteq> [] \<and> plain a \<and> c' = c[1 := a])"
  unfolding in_backtrack by auto

lemma in_tailRe:
  "(s', c') \<in> set (backtrack t tailRe s c) \<longleftrightarrow>
     s' = [] \<and> (\<exists>k p n. s = ''/'' @ k @ p @ ''/'' @ n @ ''.yaml'' \<and> k \<in> set typeKeys \<and>
        plain p \<and> n \<noteq> [] \<and> plain n \<and> c' = c[3 := k, 2 := k, 4 := p @ ''/'', 5 := n])"
  (is "?L \<longleftrightarrow> ?R")
proof
  assume ?L
  then show ?R
    unfolding tailRe_def in_backtrack_Cat in_backtrack_Lit in_entityGroup in_pathGroup in_nameRe
    by auto
next
  assume ?R
  then obtain k p n where h: "s' = []" "s = ''/'' @ k @ p @ ''/'' @ n @ ''.yaml''" "k \<in> set typeKeys"
     "plain p" "n \<noteq> []" "plain n" "c' = c[3 := k, 2 := k, 4 := p @ ''/'', 5 := n]" by blast
  have 1: "(k @ p @ ''/'' @ n @ ''.yaml'', c) \<in> set (backtrack t (Lit ''/'') s c)"
    using h unfolding in_backtrack_Lit by simp
  have 2: "(p @ ''/'' @ n @ ''.yaml'', c[3 := k, 2 := k])
      \<in> set (backtrack t entityGroup (k @ p @ ''/'' @ n @ ''.yaml'') c)"
    using h unfolding in_entityGroup by blast
  have 3: "(n @ ''.yaml'', c[3 := k, 2 := k, 4 := p @ ''/''])
      \<in> set (backtrack t pathGroup (p @ ''/'' @ n @ ''.yaml'') (c[3 := k, 2 := k]))"
    using h unfolding in_pathGroup by blast
  have 4: "([], c[3 := k, 2 := k, 4 := p @ ''/'', 5 := n])
      \<in> set (backtrack t nameRe (n @ ''.yaml'') (c[3 := k, 2 := k, 4 := p @ ''/'']))"
    using h unfolding in_nameRe by blast
  show ?L unfolding tailRe_def in_backtrack_Cat using 1 2 3 4 h(1,7) by blast
qed

lemma in_pathBody:
  "(s', c') \<in> set (backtrack t pathBody s c) \<longleftrightarrow>
     s' = [] \<and> (\<exists>a k p n. s = a @ ''/'' @ k @ p @ ''/'' @ n @ ''.yaml'' \<and> a \<noteq> [] \<and> plain a \<and>
        k \<in> set typeKeys \<and> plain p \<and> n \<noteq> [] \<and> plain n \<and>
        c' = c[1 := a, 3 := k, 2 := k, 4 := p @ ''/'', 5 := n])"
  (is "?L \<longleftrightarrow> ?R")
proof
  assume ?L
  then show ?R unfolding pathBody_def in_backtrack_Cat in_accountGroup in_tailRe by auto
next
  assume ?R
  then obtain a k p n where h: "s' = []" "s = a @ ''/'' @ k @ p @ ''/'' @ n @ ''.yaml''" "a \<noteq> []"
     "plain a" "k \<in> set typeKeys"
     "plain p" "n \<noteq> []" "plain n" "c' = c[1 := a, 3 := k, 2 := k, 4 := p @ ''/'', 5 := n]" by blast
  have 1: "(''/'' @ k @ p @ ''/'' @ n @ ''.yaml'', c[1 := a])
      \<in> set (backtrack t (Cap 1 (Plus AnyCharNotNL)) s c)"
    using h unfolding in_accountGroup by blast
  have 2: "([], c[1 := a, 3 := k, 2 := k, 4 := p @ ''/'', 5 := n])
      \<in> set (backtrack t tailRe (''/'' @ k @ p @ ''/'' @ n @ ''.yaml'') (c[1 := a]))"
    using h unfolding in_tailRe by blast
  show ?L unfolding pathBody_def in_backtrack_Cat using 1 2 h(1,9) by blast
qed

lemma replicate6: "replicate (Suc 5) x = [x, x, x, x, x, x]"
  by (simp add: eval_nat_numeral)

lemma pathRegex_cases:
  obtains (nomatch) "backtrack s pathBody s [[], [], [], [], [], []] = []"
                    "FindStringSubmatch (pathRegex Yaml) s = []"
  | (match) s1 c where
      "backtrack s pathBody s [[], [], [], [], [], []] \<noteq> []"
      "hd (backtrack s pathBody s [[], [], [], [], [], []]) = (s1, c)"
      "FindStringSubmatch (pathRegex Yaml) s = c[0 := take (length s - length s1) s]"
proof (cases "backtrack s pathBody s [[], [], [], [], [], []]")
  case Nil
  then show ?thesis
    using nomatch FindStringSubmatch_anchored [OF pathRegex_prog(1), of s]
    unfolding pathRegex_prog replicate6 by (simp del: backtrack.simps)
next
  case (Cons p ps)
  obtain s1 c where p: "p = (s1, c)" by (cases p)
  with Cons show ?thesis
    using match [of s1 c] FindStringSubmatch_anchored [OF pathRegex_prog(1), of s]
    unfolding pathRegex_prog replicate6 by (simp del: backtrack.simps)
qed

lemma matches_iff: "matches fp \<longleftrightarrow> FindStringSubmatch (pathRegex Yaml) fp \<noteq> []"
  by (simp add: matches_def namedMatch_def Let_def)

lemma pathRegex_match_form:
  assumes "FindStringSubmatch (pathRegex Yaml) fp \<noteq> []"
  shows "\<exists>a k p n. fp = a @ ''/'' @ k @ p @ ''/'' @ n @ ''.yaml'' \<and> a \<noteq> [] \<and> plain a \<and>
        k \<in> set typeKeys \<and> plain p \<and> n \<noteq> [] \<and> plain n \<and>
        FindStringSubmatch (pathRegex Yaml) fp = [fp, a, k, k, p @ ''/'', n]"
proof (cases fp rule: pathRegex_cases)
  case nomatch
  with assms show ?thesis by simp
next
  case (match s1 c)
  then have "(s1, c) \<in> set (backtrack fp pathBody fp [[], [], [], [], [], []])"
    using hd_in_set by (metis (no_types))
  then obtain a k p n where h: "s1 = []" "fp = a @ ''/'' @ k @ p @ ''/'' @ n @ ''.yaml''" "a \<noteq> []" "plain a"
        "k \<in> set typeKeys" "plain p" "n \<noteq> []" "plain n"
        "c = [[], [], [], [], [], []][1 := a, 3 := k, 2 := k, 4 := p @ ''/'', 5 := n]"
    unfolding in_pathBody by blast
  from h(9) have "c = [[], a, k, k, p @ ''/'', n]" by simp
  with match(3) h(1) have "FindStringSubmatch (pathRegex Yaml) fp = [fp, a, k, k, p @ ''/'', n]"
    by simp
  with h show ?thesis by blast
qed

lemma pathRegex_accepts:
  assumes "patternForm fp"
  shows "FindStringSubmatch (pathRegex Yaml) fp \<noteq> []"
proof (cases fp rule: pathRegex_cases)
  case nomatch
  then have "set (backtrack fp pathBody fp [[], [], [], [], [], []]) = {}"
    by (simp del: backtrack.simps)
  moreover from assms
  have "\<exists>c. ([], c) \<in> set (backtrack fp pathBody fp [[], [], [], [], [], []])"
    unfolding in_pathBody patternForm_def by blast
  ultimately show ?thesis by (simp del: backtrack.simps)
next
  case (match s1 c)
  then have "(s1, c) \<in> set (backtrack fp pathBody fp [[], [], [], [], [], []])"
    using hd_in_set by (metis (no_types))
  then have "length c = 6" unfolding in_pathBody by auto
  with match(3) show ?thesis by auto
qed

subsection \<open>What the pattern accepts\<close>

text \<open>
  Claim C4, as amended. A relative path matches the path pattern if and only if it is
  \<^verbatim>\<open><account>/<typeKey><path>/<name>.yaml\<close> for some non-empty account text, a type key
  among user, group, policy and role, some path text and a non-empty name, none of them
  with a newline. The account text need not be a canonical account string, and the
  text between the type key and the last slash need not begin with a slash.
\<close>

theorem pattern_accepts_exactly:
  "matches fp \<longleftrightarrow> patternForm fp"
proof
  assume "matches fp"
  then have "FindStringSubmatch (pathRegex Yaml) fp \<noteq> []" by (simp add: matches_iff)
  from pathRegex_match_form [OF this] show "patternForm fp" unfolding patternForm_def by blast
next
  assume "patternForm fp"
  then show "matches fp" using pathRegex_accepts by (simp add: matches_iff)
qed

theorem pattern_accepts_exactly_witness:
  "patternForm ''prod-123456789012/user/bob.yaml'' \<and> matches ''prod-123456789012/user/bob.yaml'' \<and>
   \<not> patternForm ''readme.txt'' \<and> \<not> matches ''readme.txt''"
proof -
  have "''prod-123456789012/user/bob.yaml'' =
          ''prod-123456789012'' @ ''/'' @ ''user'' @ [] @ ''/'' @ ''bob'' @ ''.yaml'' \<and>
        ''prod-123456789012'' \<noteq> [] \<and> plain ''prod-123456789012'' \<and> ''user'' \<in> set typeKeys \<and>
        plain [] \<and> ''bob'' \<noteq> [] \<and> plain ''bob''"
    by (simp add: typeKeys_def plain_def)
  then have 1: "patternForm ''prod-123456789012/user/bob.yaml''"
    unfolding patternForm_def by blast
  have "FindStringSubmatch (pathRegex Yaml) ''readme.txt'' = []" by code_simp
  then have 2: "\<not> matches ''readme.txt''" by (simp add: matches_iff)
  from 1 2 show ?thesis
    using pattern_accepts_exactly [of "''prod-123456789012/user/bob.yaml''"]
      pattern_accepts_exactly [of "''readme.txt''"]
    by blast
qed

text \<open>
  The claim as stated asks for a canonical account string and a hierarchical path that
  begins with a slash. The pattern accepts \<^verbatim>\<open>notes/userdocs/x.yaml\<close>, which has neither.
\<close>

lemma canonicalAccount_chars:
  assumes "canonicalAccount s"
  shows "s \<noteq> [] \<and> is_digit (last s) \<and> CHR ''/'' \<notin> set s \<and> plain s"
proof -
  have d: "y \<noteq> [] \<Longrightarrow> list_all is_digit y \<Longrightarrow> is_digit (last y) \<and> CHR ''/'' \<notin> set y \<and> plain y" for y
    by (induction y) (auto simp: is_digit_def plain_def)
  have w: "list_all (in_class WordOrHyphen) y \<Longrightarrow> CHR ''/'' \<notin> set y \<and> plain y" for y
    by (induction y) (auto simp: is_word_def plain_def)
  from assms show ?thesis
    unfolding canonicalAccount_def aliasAccountId_def bareAccountId_def
    using d w by (auto simp: plain_def)
qed

theorem pattern_accepts_more_counterexample:
  "matches ''notes/userdocs/x.yaml'' \<and> \<not> renderForm ''notes/userdocs/x.yaml''"
proof
  have "patternForm ''notes/userdocs/x.yaml''"
  proof -
    have "''notes/userdocs/x.yaml'' = ''notes'' @ ''/'' @ ''user'' @ ''docs'' @ ''/'' @ ''x'' @ ''.yaml'' \<and>
       ''notes'' \<noteq> [] \<and> plain ''notes'' \<and> ''user'' \<in> set typeKeys \<and> plain ''docs'' \<and> ''x'' \<noteq> [] \<and> plain ''x''"
      by (simp add: plain_def typeKeys_def)
    then show ?thesis unfolding patternForm_def by blast
  qed
  then show "matches ''notes/userdocs/x.yaml''" by (simp add: pattern_accepts_exactly)
next
  show "\<not> renderForm ''notes/userdocs/x.yaml''"
  proof
    assume "renderForm ''notes/userdocs/x.yaml''"
    then obtain acct k p n where
      d: "''notes/userdocs/x.yaml'' = acct @ ''/'' @ k @ p @ n @ ''.yaml''" "canonicalAccount acct"
      unfolding renderForm_def by blast
    define r where "r = k @ p @ n @ ''.yaml''"
    have h: "''notes/userdocs/x.yaml'' = acct @ CHR ''/'' # r" using d(1) by (simp add: r_def)
    have n: "CHR ''/'' \<notin> set acct" "is_digit (last acct)"
      using d(2) canonicalAccount_chars by blast+
    have "takeWhile (\<lambda>x. x \<noteq> CHR ''/'') (acct @ CHR ''/'' # r) = acct"
      using n(1) by (rule takeWhile_upto)
    then have "takeWhile (\<lambda>x. x \<noteq> CHR ''/'') ''notes/userdocs/x.yaml'' = acct"
      unfolding h [symmetric] .
    then have "acct = ''notes''" by simp
    with n(2) show False by (simp add: is_digit_def)
  qed
qed

subsection \<open>The first match of the greedy groups\<close>

lemma hd_concat_greedy:
  assumes "lo \<le> n0" "n0 \<le> hi" "g n0 \<noteq> []" "\<And>n. n0 < n \<Longrightarrow> n \<le> hi \<Longrightarrow> g n = []"
  shows "concat (map g (rev [lo ..< Suc hi])) \<noteq> [] \<and>
         hd (concat (map g (rev [lo ..< Suc hi]))) = hd (g n0)"
proof -
  define upper where "upper = rev [Suc n0 ..< Suc hi]"
  define lower where "lower = rev [lo ..< n0]"
  have "n0 + (Suc hi - n0) = Suc hi" using assms(2) by simp
  then have "[lo ..< Suc hi] = [lo ..< n0] @ [n0 ..< Suc hi]"
    using upt_add_eq_append [OF assms(1), of "Suc hi - n0"] by simp
  moreover have "[n0 ..< Suc hi] = n0 # [Suc n0 ..< Suc hi]"
    using assms(2) by (intro upt_conv_Cons) simp
  ultimately have "rev [lo ..< Suc hi] = upper @ n0 # lower"
    unfolding upper_def lower_def by (simp del: upt_Suc)
  then have split: "concat (map g (rev [lo ..< Suc hi])) =
      concat (map g upper) @ g n0 @ concat (map g lower)"
    by (simp del: upt_Suc)
  have "\<forall>n \<in> set upper. g n = []"
    unfolding upper_def using assms(4) by (auto simp del: upt_Suc)
  then have "concat (map g upper) = []" by simp
  with split assms(3) show ?thesis by simp
qed

lemma backtrack_Cap_Plus:
  "backtrack t (Cap i (Plus k)) s c =
     map (\<lambda>n. (drop n s, c[i := take n s])) (rev [1 ..< Suc (length (takeWhile (in_class k) s))])"
proof -
  have "length s - length (drop n s) = n" if "n \<le> length (takeWhile (in_class k) s)" for n
    using that length_takeWhile_le [of "in_class k" s] by simp
  then show ?thesis by (simp add: o_def less_Suc_eq_le del: upt_Suc)
qed

lemma backtrack_Cat_Cap_Plus:
  "backtrack t (Cat (Cap i (Plus k)) b) s c =
     concat (map (\<lambda>n. backtrack t b (drop n s) (c[i := take n s]))
                 (rev [1 ..< Suc (length (takeWhile (in_class k) s))]))"
  unfolding backtrack.simps(6) backtrack_Cap_Plus by (simp add: o_def del: upt_Suc)

lemma backtrack_pathGroup:
  "backtrack t pathGroup s c =
     concat (map (\<lambda>n. if prefix ''/'' (drop n s) then [(drop (Suc n) s, c[4 := take (Suc n) s])] else [])
                 (rev [0 ..< Suc (length (takeWhile (in_class AnyCharNotNL) s))]))"
proof -
  have len: "length s - length (drop (Suc n) s) = Suc n" if "prefix ''/'' (drop n s)" for n
  proof -
    from that have "drop n s \<noteq> []" by auto
    then have "n < length s" by simp
    then show ?thesis by simp
  qed
  show ?thesis
    unfolding pathGroup_def
    apply (simp add: o_def map_concat del: upt_Suc)
    apply (rule arg_cong [where f = concat])
    apply (rule map_cong [OF refl])
    using len apply auto
    done
qed

lemma run_plain: "plain s \<Longrightarrow> length (takeWhile (in_class AnyCharNotNL) s) = length s"
  by (induction s) (auto simp: plain_def)

lemma prefix_slash_mem: "prefix ''/'' x \<Longrightarrow> CHR ''/'' \<in> set x"
  by (auto simp: prefix_def)

lemma plain_simps [simp]:
  "plain []" "plain (x # xs) \<longleftrightarrow> x \<noteq> CHR 0x0A \<and> plain xs"
  by (auto simp: plain_def)

lemma concat_map_concat:
  "concat (map f (concat (map h xs))) = concat (map (\<lambda>x. concat (map f (h x))) xs)"
  by (induction xs) auto

lemma backtrack_Cat_pathGroup:
  "backtrack t (Cat pathGroup b) s c =
     concat (map (\<lambda>m. concat (map (\<lambda>(s1, c1). backtrack t b s1 c1)
               (if prefix ''/'' (drop m s) then [(drop (Suc m) s, c[4 := take (Suc m) s])] else [])))
            (rev [0 ..< Suc (length (takeWhile (in_class AnyCharNotNL) s))]))"
  unfolding backtrack.simps(6) backtrack_pathGroup concat_map_concat ..

lemma path_first:
  assumes "plain p0" "n \<noteq> []" "plain n" "CHR ''/'' \<notin> set n"
  shows "backtrack t (Cat pathGroup nameRe) (p0 @ ''/'' @ n @ ''.yaml'') c \<noteq> [] \<and>
         hd (backtrack t (Cat pathGroup nameRe) (p0 @ ''/'' @ n @ ''.yaml'') c)
           = ([], c[4 := p0 @ ''/'', 5 := n])"
proof -
  let ?s = "p0 @ ''/'' @ n @ ''.yaml''"
  let ?g = "\<lambda>m. concat (map (\<lambda>(s1, c1). backtrack t nameRe s1 c1)
               (if prefix ''/'' (drop m ?s) then [(drop (Suc m) ?s, c[4 := take (Suc m) ?s])] else []))"
  have run: "length (takeWhile (in_class AnyCharNotNL) ?s) = length ?s"
    using assms by (intro run_plain) simp
  have eq: "backtrack t (Cat pathGroup nameRe) ?s c = concat (map ?g (rev [0 ..< Suc (length ?s)]))"
    unfolding backtrack_Cat_pathGroup run ..
  have g0: "?g (length p0) = backtrack t nameRe (n @ ''.yaml'') (c[4 := p0 @ ''/''])"
    by simp
  have all: "x = ([], c[4 := p0 @ ''/'', 5 := n])"
    if "x \<in> set (backtrack t nameRe (n @ ''.yaml'') (c[4 := p0 @ ''/'']))" for x
  proof -
    obtain s1 c1 where x: "x = (s1, c1)" by (cases x)
    from that [unfolded x in_nameRe] obtain n' where
      "s1 = []" "n @ ''.yaml'' = n' @ ''.yaml''" "c1 = c[4 := p0 @ ''/'', 5 := n']" by blast
    then show ?thesis using x by simp
  qed
  have "([], c[4 := p0 @ ''/'', 5 := n]) \<in> set (backtrack t nameRe (n @ ''.yaml'') (c[4 := p0 @ ''/'']))"
    using assms unfolding in_nameRe by blast
  then have ne: "?g (length p0) \<noteq> []" unfolding g0 by auto
  then have hd0: "hd (?g (length p0)) = ([], c[4 := p0 @ ''/'', 5 := n])"
    unfolding g0 using all hd_in_set by blast
  have later: "?g m = []" if "length p0 < m" "m \<le> length ?s" for m
  proof -
    from that(1) obtain j where m: "m = Suc (length p0 + j)"
      using less_imp_Suc_add by blast
    have "drop m ?s = drop j (n @ ''.yaml'')" unfolding m by simp
    then have "set (drop m ?s) \<subseteq> set (n @ ''.yaml'')"
      using set_drop_subset [of j "n @ ''.yaml''"] by simp
    then have "CHR ''/'' \<notin> set (drop m ?s)" using assms(4) by auto
    then have "\<not> prefix ''/'' (drop m ?s)" using prefix_slash_mem by blast
    then show ?thesis by simp
  qed
  have "concat (map ?g (rev [0 ..< Suc (length ?s)])) \<noteq> [] \<and>
        hd (concat (map ?g (rev [0 ..< Suc (length ?s)]))) = hd (?g (length p0))"
    using ne later by (intro hd_concat_greedy) simp_all
  with eq hd0 show ?thesis by simp
qed

lemma backtrack_entityGroup:
  assumes "k \<in> set typeKeys"
  shows "backtrack t entityGroup (k @ rest) c = [(rest, c[3 := k, 2 := k])]"
proof -
  from assms consider "k = ''user''" | "k = ''group''" | "k = ''policy''" | "k = ''role''"
    by (auto simp: typeKeys_def)
  then show ?thesis by cases (simp_all add: entityGroup_def)
qed

lemma tail_first:
  assumes "k \<in> set typeKeys" "plain p0" "n \<noteq> []" "plain n" "CHR ''/'' \<notin> set n"
  shows "backtrack t tailRe (''/'' @ k @ p0 @ ''/'' @ n @ ''.yaml'') c \<noteq> [] \<and>
         hd (backtrack t tailRe (''/'' @ k @ p0 @ ''/'' @ n @ ''.yaml'') c)
           = ([], c[3 := k, 2 := k, 4 := p0 @ ''/'', 5 := n])"
proof -
  have "backtrack t tailRe (''/'' @ k @ p0 @ ''/'' @ n @ ''.yaml'') c =
        backtrack t (Cat pathGroup nameRe) (p0 @ ''/'' @ n @ ''.yaml'') (c[3 := k, 2 := k])"
    unfolding tailRe_def backtrack.simps(6) [of t "Lit ''/''"] backtrack.simps(6) [of t entityGroup]
    using backtrack_entityGroup [OF assms(1)]
    by (simp del: backtrack.simps(6))
  then show ?thesis using path_first [OF assms(2-5)] by simp
qed

lemma typeKey_no_slash: "k \<in> set typeKeys \<Longrightarrow> CHR ''/'' \<notin> set k"
  by (auto simp: typeKeys_def)

lemma typeKey_plain: "k \<in> set typeKeys \<Longrightarrow> plain k"
  by (auto simp: typeKeys_def)

lemma no_later_start:
  assumes eq: "k @ p @ m = u @ ''/'' @ k' @ q"
    and k: "CHR ''/'' \<notin> set k" and m: "CHR ''/'' \<notin> set m" and q: "CHR ''/'' \<in> set q"
  shows "sublist (''/'' @ k') p"
proof -
  from eq obtain v where "(k = u @ v \<and> v @ p @ m = ''/'' @ k' @ q) \<or> (k @ v = u \<and> p @ m = v @ ''/'' @ k' @ q)"
    using append_eq_append_conv2 [of k "p @ m" u "''/'' @ k' @ q"] by blast
  then have "\<exists>v. p @ m = v @ ''/'' @ k' @ q"
  proof
    assume a: "k = u @ v \<and> v @ p @ m = ''/'' @ k' @ q"
    show ?thesis
    proof (cases v)
      case Nil
      with a have "p @ m = [] @ ''/'' @ k' @ q" by simp
      then show ?thesis by blast
    next
      case (Cons x xs)
      with a have "x = CHR ''/''" by simp
      with a Cons k show ?thesis by simp
    qed
  next
    assume "k @ v = u \<and> p @ m = v @ ''/'' @ k' @ q"
    then show ?thesis by blast
  qed
  then obtain v where "p @ m = (v @ ''/'' @ k') @ q" by auto
  then obtain x where "(p = (v @ ''/'' @ k') @ x \<and> x @ m = q) \<or> (p @ x = v @ ''/'' @ k' \<and> m = x @ q)"
    using append_eq_append_conv2 [of p m "v @ ''/'' @ k'" q] by blast
  then show ?thesis
  proof
    assume "p = (v @ ''/'' @ k') @ x \<and> x @ m = q"
    then have "p = v @ (''/'' @ k') @ x" by simp
    then show ?thesis unfolding sublist_def by blast
  next
    assume "p @ x = v @ ''/'' @ k' \<and> m = x @ q"
    with q m show ?thesis by auto
  qed
qed

lemma tail_none_later:
  assumes "k \<in> set typeKeys" "CHR ''/'' \<notin> set n" "\<not> typeKeySegment (p0 @ ''/'')"
  shows "backtrack t tailRe (drop (Suc j) (''/'' @ k @ p0 @ ''/'' @ n @ ''.yaml'')) c = []"
proof (rule ccontr)
  define w where "w = k @ (p0 @ ''/'') @ (n @ ''.yaml'')"
  have e: "drop (Suc j) (''/'' @ k @ p0 @ ''/'' @ n @ ''.yaml'') = drop j w"
    by (simp add: w_def)
  assume "backtrack t tailRe (drop (Suc j) (''/'' @ k @ p0 @ ''/'' @ n @ ''.yaml'')) c \<noteq> []"
  then have "backtrack t tailRe (drop j w) c \<noteq> []" unfolding e .
  then have "hd (backtrack t tailRe (drop j w) c) \<in> set (backtrack t tailRe (drop j w) c)"
    by (rule hd_in_set)
  then obtain s' c' where "(s', c') \<in> set (backtrack t tailRe (drop j w) c)"
    by (metis surj_pair)
  then obtain k' p' n' where d: "drop j w = ''/'' @ k' @ p' @ ''/'' @ n' @ ''.yaml''"
     "k' \<in> set typeKeys"
    unfolding in_tailRe by blast
  have "take j w @ drop j w = w" by (rule append_take_drop_id)
  then have 1: "k @ (p0 @ ''/'') @ (n @ ''.yaml'') = take j w @ ''/'' @ k' @ (p' @ ''/'' @ n' @ ''.yaml'')"
    unfolding d(1) w_def [symmetric] by simp
  have 2: "CHR ''/'' \<notin> set (n @ ''.yaml'')" using assms(2) by simp
  have 3: "CHR ''/'' \<in> set (p' @ ''/'' @ n' @ ''.yaml'')" by simp
  have "sublist (''/'' @ k') (p0 @ ''/'')"
    by (rule no_later_start [OF 1 typeKey_no_slash [OF assms(1)] 2 3])
  with d(2) have "typeKeySegment (p0 @ ''/'')"
    unfolding typeKeySegment_def list_ex_iff by blast
  with assms(3) show False by simp
qed

lemma pathRegex_first:
  assumes "a \<noteq> []" "plain a" "k \<in> set typeKeys" "plain p0" "\<not> typeKeySegment (p0 @ ''/'')"
    "n \<noteq> []" "plain n" "CHR ''/'' \<notin> set n"
  shows "FindStringSubmatch (pathRegex Yaml) (a @ ''/'' @ k @ p0 @ ''/'' @ n @ ''.yaml'')
           = [a @ ''/'' @ k @ p0 @ ''/'' @ n @ ''.yaml'', a, k, k, p0 @ ''/'', n]"
proof -
  define r where "r = ''/'' @ k @ p0 @ ''/'' @ n @ ''.yaml''"
  define s where "s = a @ r"
  define c0 where "c0 = ([[], [], [], [], [], []] :: string list)"
  define g where "g = (\<lambda>m. backtrack s tailRe (drop m s) (c0[1 := take m s]))"
  have pl: "plain s" using assms typeKey_plain by (simp add: s_def r_def)
  define found where "found = concat (map g (rev [1 ..< Suc (length s)]))"
  have eq: "backtrack s pathBody s c0 = found"
    unfolding pathBody_def backtrack_Cat_Cap_Plus run_plain [OF pl] g_def found_def ..
  have g0: "g (length a) = backtrack s tailRe r (c0[1 := a])" by (simp add: g_def s_def)
  have first: "g (length a) \<noteq> [] \<and>
      hd (g (length a)) = ([], c0[1 := a, 3 := k, 2 := k, 4 := p0 @ ''/'', 5 := n])"
    unfolding g0 r_def using assms by (intro tail_first)
  have later: "g m = []" if "length a < m" for m
  proof -
    from that obtain j where m: "m = Suc (length a + j)"
      using less_imp_Suc_add by blast
    have "drop m s = drop (Suc j) r" unfolding m s_def by simp
    then show ?thesis
      unfolding g_def r_def using tail_none_later [OF assms(3,8,5)] by simp
  qed
  have "1 \<le> length a" using assms(1) by (cases a) auto
  moreover have "length a \<le> length s" by (simp add: s_def)
  ultimately have "found \<noteq> [] \<and> hd found = hd (g (length a))"
    unfolding found_def using first later by (intro hd_concat_greedy) blast+
  with first have
    ne: "backtrack s pathBody s c0 \<noteq> []" and
    hd: "hd (backtrack s pathBody s c0) =
           ([], c0[1 := a, 3 := k, 2 := k, 4 := p0 @ ''/'', 5 := n])"
    unfolding eq by simp_all
  have "FindStringSubmatch (pathRegex Yaml) s = [s, a, k, k, p0 @ ''/'', n]"
  proof (cases s rule: pathRegex_cases)
    case nomatch
    with ne show ?thesis by (simp add: c0_def)
  next
    case (match s1 c)
    with hd have "s1 = []" "c = c0[1 := a, 3 := k, 2 := k, 4 := p0 @ ''/'', 5 := n]"
      by (simp_all add: c0_def)
    with match(3) show ?thesis by (simp add: c0_def)
  qed
  then show ?thesis unfolding s_def r_def .
qed

lemma renderPath_Yaml:
  "renderPath (pathTemplate Yaml) a r =
     Inr (String a @ ''/'' @ Type r @ PathString r @ NameString r @ ''.yaml'')"
  by (simp add: renderPath_def Yaml_def evalField_def)

lemma Type_typeKeys: "Type r \<in> set typeKeys"
  by (cases r) (simp_all add: typeKeys_def)

lemma pathComponents_groups:
  assumes "FindStringSubmatch (pathRegex Yaml) fp = [m0, m1, m2, m3, m4, m5]"
  shows "pathComponents fp = Some (m1, m2, m4, m5)"
  using assms
  by (simp add: pathComponents_def namedMatch_def pathRegex_prog at_def enumerate_eq_zip upt_rec)

lemma pathComponents_nomatch:
  assumes "FindStringSubmatch (pathRegex Yaml) fp = []"
  shows "pathComponents fp = None"
  using assms by (simp add: pathComponents_def namedMatch_def)

subsection \<open>Rendering a path and parsing it back\<close>

text \<open>
  Where the round trip holds. The account's string form is not empty and has no
  newline, the resource's path ends with a slash and has no newline, its name is not
  empty and has neither a slash nor a newline, and no segment of the path begins with a
  type key: then rendering the file path succeeds, and parsing the rendered path gives
  the account's string form, the resource's type, its path and its name.
\<close>

lemma roundtrip_without_type_key_segment:
  "String a \<noteq> [] \<and> plain (String a) \<and>
   PathString r \<noteq> [] \<and> last (PathString r) = CHR ''/'' \<and> plain (PathString r) \<and>
   \<not> typeKeySegment (PathString r) \<and>
   NameString r \<noteq> [] \<and> plain (NameString r) \<and> CHR ''/'' \<notin> set (NameString r) \<longrightarrow>
   (\<exists>fp. renderPath (pathTemplate Yaml) a r = Inr fp \<and>
      pathComponents fp = Some (String a, Type r, PathString r, NameString r))"
proof
  assume h: "String a \<noteq> [] \<and> plain (String a) \<and>
   PathString r \<noteq> [] \<and> last (PathString r) = CHR ''/'' \<and> plain (PathString r) \<and>
   \<not> typeKeySegment (PathString r) \<and>
   NameString r \<noteq> [] \<and> plain (NameString r) \<and> CHR ''/'' \<notin> set (NameString r)"
  define p0 where "p0 = butlast (PathString r)"
  have p: "PathString r = p0 @ ''/''"
    using h append_butlast_last_id [of "PathString r"] by (simp add: p0_def)
  have "plain p0" using h p by simp
  then have "FindStringSubmatch (pathRegex Yaml)
               (String a @ ''/'' @ Type r @ p0 @ ''/'' @ NameString r @ ''.yaml'')
             = [String a @ ''/'' @ Type r @ p0 @ ''/'' @ NameString r @ ''.yaml'',
                String a, Type r, Type r, p0 @ ''/'', NameString r]"
    using h Type_typeKeys [of r] unfolding p by (intro pathRegex_first) simp_all
  then have "pathComponents (String a @ ''/'' @ Type r @ p0 @ ''/'' @ NameString r @ ''.yaml'')
              = Some (String a, Type r, p0 @ ''/'', NameString r)"
    by (rule pathComponents_groups)
  then show "\<exists>fp. renderPath (pathTemplate Yaml) a r = Inr fp \<and>
      pathComponents fp = Some (String a, Type r, PathString r, NameString r)"
    unfolding renderPath_Yaml p by simp
qed

text \<open>The spec's scenario: the role \<^verbatim>\<open>deploy\<close> at \<^verbatim>\<open>/svc/\<close> of the account 999.\<close>

lemma not_typeKeySegment_svc: "\<not> typeKeySegment ''/svc/''"
  by (simp add: typeKeySegment_def typeKeys_def sublist_code)

lemma deploy_role_roundtrip:
  "renderPath (pathTemplate Yaml) \<lparr>AccountId = ''999'', AccountAlias = []\<rparr>
     (ARole \<lparr> RoleName = ''deploy'', RolePath = ''/svc/'',
        RoleAssumeRolePolicyDocument = [(''Version'', YStr ''2012-10-17'')],
        RoleInlinePolicies = [], RolePolicies = [] \<rparr>)
     = Inr ''999/role/svc/deploy.yaml'' \<and>
   pathComponents ''999/role/svc/deploy.yaml'' = Some (''999'', ''role'', ''/svc/'', ''deploy'')"
  using roundtrip_without_type_key_segment [of "\<lparr>AccountId = ''999'', AccountAlias = []\<rparr>"
      "ARole \<lparr> RoleName = ''deploy'', RolePath = ''/svc/'',
        RoleAssumeRolePolicyDocument = [(''Version'', YStr ''2012-10-17'')],
        RoleInlinePolicies = [], RolePolicies = [] \<rparr>"]
    not_typeKeySegment_svc
  by (simp add: renderPath_Yaml String_def plain_def)

text \<open>
  Claim C1 says that for every account and resource (user, group, role or policy),
  parsing the rendered file path gives back the account's string form, the resource's
  type, its path and its name. The code breaks it where a segment of the resource's path
  begins with a type key. The account group of the pattern is \<^verbatim>\<open>.+\<close>, greedy and free to
  hold slashes, so the match takes the last place where a type key follows a slash: the
  user \<^verbatim>\<open>bob\<close> at the path \<^verbatim>\<open>/users/\<close> of the account 123 renders to
  \<^verbatim>\<open>123/user/users/bob.yaml\<close>, which parses to the account \<^verbatim>\<open>123/user\<close>, the type
  \<^verbatim>\<open>user\<close>, the path \<^verbatim>\<open>s/\<close> and the name \<^verbatim>\<open>bob\<close>; and \<^verbatim>\<open>Load\<close> of a tree holding that
  file panics on the account name.
\<close>

theorem path_roundtrip_broken:
  "renderPath (pathTemplate Yaml) \<lparr>AccountId = ''123'', AccountAlias = []\<rparr>
     (AUser \<lparr> UserName = ''bob'', UserPath = ''/users/'', UserGroups = [],
        UserInlinePolicies = [], UserPolicies = [''ReadOnly''] \<rparr>) = Inr ''123/user/users/bob.yaml'' \<and>
   pathComponents ''123/user/users/bob.yaml'' = Some (''123/user'', ''user'', ''s/'', ''bob'') \<and>
   pathComponents ''123/user/users/bob.yaml'' \<noteq>
     Some (String \<lparr>AccountId = ''123'', AccountAlias = []\<rparr>,
           Type (AUser \<lparr> UserName = ''bob'', UserPath = ''/users/'', UserGroups = [],
             UserInlinePolicies = [], UserPolicies = [''ReadOnly''] \<rparr>),
           PathString (AUser \<lparr> UserName = ''bob'', UserPath = ''/users/'', UserGroups = [],
             UserInlinePolicies = [], UserPolicies = [''ReadOnly''] \<rparr>),
           NameString (AUser \<lparr> UserName = ''bob'', UserPath = ''/users/'', UserGroups = [],
             UserInlinePolicies = [], UserPolicies = [''ReadOnly''] \<rparr>)) \<and>
   Load (Yaml\<lparr>Dir := ''root''\<rparr>) usersTree =
     ([''Loading YAML IAM data from root'', ''Loading 123/user/users/bob.yaml''],
      Panic ''Can't create account name from 123/user'')"
proof -
  have "FindStringSubmatch (pathRegex Yaml) ''123/user/users/bob.yaml''
          = [''123/user/users/bob.yaml'', ''123/user'', ''user'', ''user'', ''s/'', ''bob'']"
    by code_simp
  then have c: "pathComponents ''123/user/users/bob.yaml'' = Some (''123/user'', ''user'', ''s/'', ''bob'')"
    by (rule pathComponents_groups)
  have l: "Load (Yaml\<lparr>Dir := ''root''\<rparr>) usersTree =
     ([''Loading YAML IAM data from root'', ''Loading 123/user/users/bob.yaml''],
      Panic ''Can't create account name from 123/user'')"
    by code_simp
  show ?thesis unfolding c l by (simp add: renderPath_Yaml String_def)
qed

section \<open>Loading a tree\<close>

subsection \<open>The loop over the files\<close>

text \<open>The loop of Load over a list of files, stopped where it aborts; for the proofs.\<close>

fun runFiles ::
  "YamlLoadDumper \<Rightarrow> env \<Rightarrow> string list \<Rightarrow> string list \<times> accounts
     \<Rightarrow> string list \<times> (outcome + accounts)" where
  "runFiles a e [] st = (fst st, Inr (snd st))"
| "runFiles a e (fp # fps) st =
     (case loadFile a e fp st of
        (lg, Inl out) \<Rightarrow> (lg, Inl out)
      | (lg, Inr accts) \<Rightarrow> runFiles a e fps (lg, accts))"

definition finish :: "string list \<times> (outcome + accounts) \<Rightarrow> string list \<times> outcome" where
  "finish x = (case x of (lg, Inl out) \<Rightarrow> (lg, out) | (lg, Inr accts) \<Rightarrow> (lg, Ok (map snd accts, None)))"

lemma loadFiles_runFiles: "loadFiles a e fps st = finish (runFiles a e fps st)"
proof (induction fps arbitrary: st)
  case Nil
  then show ?case by (cases st) (simp add: finish_def)
next
  case (Cons fp fps)
  then show ?case by (simp add: finish_def split: prod.splits sum.splits)
qed

lemma runFiles_append:
  "runFiles a e (xs @ ys) st =
     (case runFiles a e xs st of
        (lg, Inl out) \<Rightarrow> (lg, Inl out)
      | (lg, Inr accts) \<Rightarrow> runFiles a e ys (lg, accts))"
proof (induction xs arbitrary: st)
  case Nil
  then show ?case by (cases st) simp
next
  case (Cons x xs)
  then show ?case by (simp split: prod.splits sum.splits)
qed

lemma loadFile_unmatched:
  assumes "\<not> matches fp" "pathRegex a = pathRegex Yaml"
  shows "loadFile a e fp (lg, accts) = (lg @ [''Skipping '' @ fp], Inr accts)"
proof (cases "namedMatch (pathRegex Yaml) fp")
  case (Pair matched result)
  with assms(1) have "\<not> matched" by (simp add: matches_def)
  with Pair assms(2) show ?thesis by (simp add: loadFile_def)
qed

lemma loadMatched_log: "set (fst st) \<subseteq> set (fst (loadMatched a e fp acct k p n st))"
  by (cases st) (auto simp: loadMatched_def Let_def split: result.splits sum.splits)

lemma loadFile_log: "set (fst st) \<subseteq> set (fst (loadFile a e fp st))"
  using loadMatched_log by (auto simp: loadFile_def Let_def split: prod.splits)

lemma runFiles_log: "set (fst st) \<subseteq> set (fst (runFiles a e fps st))"
proof (induction fps arbitrary: st)
  case Nil
  then show ?case by simp
next
  case (Cons fp fps)
  show ?case
  proof (cases "loadFile a e fp st")
    case (Pair lg r)
    then have l: "set (fst st) \<subseteq> set lg" using loadFile_log [of st a e fp] by simp
    show ?thesis
    proof (cases r)
      case (Inl out)
      with Pair l show ?thesis by simp
    next
      case (Inr accts)
      with Pair l Cons [of "(lg, accts)"] show ?thesis by auto
    qed
  qed
qed

lemma namedMatch_components:
  assumes "namedMatch (pathRegex Yaml) fp = (matched, result)"
  shows "matched \<longleftrightarrow> matches fp"
    and "matched \<Longrightarrow> pathComponents fp =
           Some (at result ''account'', at result ''entity'', at result ''path'', at result ''name'')"
    and "\<not> matched \<Longrightarrow> pathComponents fp = None"
  using assms by (simp_all add: matches_def pathComponents_def)

lemma matches_components:
  assumes "matches fp"
  shows "\<exists>acct k p n. pathComponents fp = Some (acct, k, p, n) \<and> k \<in> set typeKeys"
proof -
  from assms have "FindStringSubmatch (pathRegex Yaml) fp \<noteq> []" by (simp add: matches_iff)
  from pathRegex_match_form [OF this] obtain a k p n where
    "k \<in> set typeKeys" "FindStringSubmatch (pathRegex Yaml) fp = [fp, a, k, k, p @ ''/'', n]"
    by blast
  then show ?thesis using pathComponents_groups by blast
qed



lemma NewAccountData_empty:
  "NewAccountData acct = Ok d \<Longrightarrow> Users d = [] \<and> Groups d = [] \<and> Roles d = [] \<and> Policies d = []"
  by (auto simp: NewAccountData_def split: result.splits)

text \<open>What one round of the loop does, case by case.\<close>

lemma loadFile_matched:
  assumes "pathRegex a = pathRegex Yaml" "pathComponents fp = Some (acct, k, p, n)"
  shows "loadFile a e fp st = loadMatched a e fp acct k p n st"
proof (cases "namedMatch (pathRegex Yaml) fp")
  case (Pair matched result)
  from namedMatch_components [OF Pair] assms(2) have m: "matched"
    by (cases matched) simp_all
  with namedMatch_components(2) [OF Pair] assms(2)
  have "at result ''account'' = acct" "at result ''entity'' = k" "at result ''path'' = p"
       "at result ''name'' = n" by simp_all
  with Pair m assms(1) show ?thesis by (simp add: loadFile_def)
qed









lemma loadMatched_abort_shape:
  "loadMatched a e fp acct k p n st = (lg', Inl out) \<Longrightarrow>
     (\<exists>m. out = Panic m) \<or> (\<exists>err. out = Ok ([], Some err))"
  by (cases st) (auto simp: loadMatched_def Let_def split: result.splits sum.splits if_splits)

lemma loadFile_abort_shape:
  "loadFile a e fp st = (lg', Inl out) \<Longrightarrow>
     (\<exists>m. out = Panic m) \<or> (\<exists>err. out = Ok ([], Some err))"
  using loadMatched_abort_shape
  by (auto simp: loadFile_def Let_def split: prod.splits if_splits)

lemma runFiles_abort_shape:
  "runFiles a e fps st = (lg', Inl out) \<Longrightarrow>
     (\<exists>m. out = Panic m) \<or> (\<exists>err. out = Ok ([], Some err))"
proof (induction fps arbitrary: st)
  case Nil
  then show ?case by simp
next
  case (Cons fp fps)
  show ?case
  proof (cases "loadFile a e fp st")
    case (Pair lg r)
    show ?thesis
    proof (cases r)
      case (Inl o1)
      with Pair Cons.prems have "o1 = out" by simp
      with Pair Inl show ?thesis using loadFile_abort_shape by blast
    next
      case (Inr accts)
      with Pair Cons.prems have "runFiles a e fps (lg, accts) = (lg', Inl out)" by simp
      then show ?thesis by (rule Cons.IH)
    qed
  qed
qed

lemma loadMatched_snd_log:
  "snd (loadMatched a e fp acct k p n (lg1, accts)) = snd (loadMatched a e fp acct k p n (lg2, accts))"
  by (auto simp: loadMatched_def Let_def split: result.splits sum.splits)

lemma loadFile_snd_log:
  "snd (loadFile a e fp (lg1, accts)) = snd (loadFile a e fp (lg2, accts))"
  using loadMatched_snd_log by (auto simp: loadFile_def Let_def split: prod.splits)

lemma runFiles_snd_log:
  "snd (runFiles a e fps (lg1, accts)) = snd (runFiles a e fps (lg2, accts))"
proof (induction fps arbitrary: lg1 lg2 accts)
  case Nil
  then show ?case by simp
next
  case (Cons fp fps)
  obtain l1 r1 where 1: "loadFile a e fp (lg1, accts) = (l1, r1)" by (cases "loadFile a e fp (lg1, accts)")
  obtain l2 r2 where 2: "loadFile a e fp (lg2, accts) = (l2, r2)" by (cases "loadFile a e fp (lg2, accts)")
  from 1 2 loadFile_snd_log [of a e fp lg1 accts lg2] have r: "r2 = r1" by simp
  show ?case
  proof (cases r1)
    case (Inl out)
    then show ?thesis unfolding runFiles.simps 1 2 r by simp
  next
    case (Inr accts')
    then show ?thesis unfolding runFiles.simps 1 2 r using Cons.IH [of l1 accts' l2] by simp
  qed
qed

lemma snd_finish: "snd (finish x) = (case snd x of Inl out \<Rightarrow> out | Inr accts \<Rightarrow> Ok (map snd accts, None))"
  by (cases x) (auto simp: finish_def split: sum.splits)

lemma Load_files:
  assumes "getFilesRecursively a e = (files, None)"
  shows "Load a e = loadFiles a e files ([''Loading YAML IAM data from '' @ Dir a], [])"
  using assms by (simp add: Load_def)

subsection \<open>Files that do not match\<close>

text \<open>
  Claim C5. For every file under the root whose relative path does not match the path
  pattern: the round of the loop on that file adds the line \<^verbatim>\<open>Skipping\<close> and the path to
  the log and leaves the accounts as they are; what \<^verbatim>\<open>Load\<close> returns (the accounts, or the
  error) is what it returns for the same files without that one, so the file is in no
  account of the result and is the cause of no error; and whenever the files before it
  load, the skip is in the log of the whole \<^verbatim>\<open>Load\<close>.
\<close>

theorem unmatched_path_skipped:
  "\<not> matches fp \<and> getFilesRecursively (Yaml\<lparr>Dir := d\<rparr>) e = (xs @ fp # ys, None) \<longrightarrow>
     loadFile (Yaml\<lparr>Dir := d\<rparr>) e fp (lg, accts) = (lg @ [''Skipping '' @ fp], Inr accts) \<and>
     snd (Load (Yaml\<lparr>Dir := d\<rparr>) e) =
       snd (loadFiles (Yaml\<lparr>Dir := d\<rparr>) e (xs @ ys) ([''Loading YAML IAM data from '' @ d], [])) \<and>
     ((\<exists>r. snd (loadFiles (Yaml\<lparr>Dir := d\<rparr>) e xs ([''Loading YAML IAM data from '' @ d], []))
              = Ok (r, None)) \<longrightarrow>
        (''Skipping '' @ fp) \<in> set (fst (Load (Yaml\<lparr>Dir := d\<rparr>) e)))"
proof (intro impI conjI)
  define A where "A = Yaml\<lparr>Dir := d\<rparr>"
  define lg0 where "lg0 = [''Loading YAML IAM data from '' @ d]"
  have re: "pathRegex A = pathRegex Yaml" by (simp add: A_def)
  assume h: "\<not> matches fp \<and> getFilesRecursively (Yaml\<lparr>Dir := d\<rparr>) e = (xs @ fp # ys, None)"
  then have um: "\<not> matches fp" and files: "getFilesRecursively A e = (xs @ fp # ys, None)"
    by (simp_all add: A_def)
  have skip: "loadFile A e fp (l, c) = (l @ [''Skipping '' @ fp], Inr c)" for l c
    using um re by (rule loadFile_unmatched)
  show "loadFile (Yaml\<lparr>Dir := d\<rparr>) e fp (lg, accts) = (lg @ [''Skipping '' @ fp], Inr accts)"
    using skip [of lg accts] by (simp add: A_def)
  have load: "Load A e = finish (runFiles A e (xs @ fp # ys) (lg0, []))"
    using Load_files [OF files] by (simp add: loadFiles_runFiles lg0_def A_def)
  obtain l1 r1 where run: "runFiles A e xs (lg0, []) = (l1, r1)" by (cases "runFiles A e xs (lg0, [])")
  have "snd (Load A e) = snd (loadFiles A e (xs @ ys) (lg0, []))"
  proof (cases r1)
    case (Inl out)
    with run load show ?thesis by (simp add: loadFiles_runFiles runFiles_append snd_finish)
  next
    case (Inr c)
    with run load skip [of l1 c] runFiles_snd_log [of A e ys "l1 @ [''Skipping '' @ fp]" c l1]
    show ?thesis by (simp add: loadFiles_runFiles runFiles_append snd_finish)
  qed
  then show "snd (Load (Yaml\<lparr>Dir := d\<rparr>) e) =
       snd (loadFiles (Yaml\<lparr>Dir := d\<rparr>) e (xs @ ys) ([''Loading YAML IAM data from '' @ d], []))"
    by (simp add: A_def lg0_def)
  assume "\<exists>r. snd (loadFiles (Yaml\<lparr>Dir := d\<rparr>) e xs ([''Loading YAML IAM data from '' @ d], []))
              = Ok (r, None)"
  then obtain r where ok: "snd (finish (runFiles A e xs (lg0, []))) = Ok (r, None)"
    by (auto simp: loadFiles_runFiles A_def lg0_def)
  have "\<exists>c. r1 = Inr c"
  proof (cases r1)
    case (Inl out)
    with run ok have "out = Ok (r, None)" by (simp add: snd_finish)
    with runFiles_abort_shape [of A e xs "(lg0, [])" l1 out] run Inl show ?thesis by auto
  next
    case (Inr c)
    then show ?thesis by blast
  qed
  then obtain c where c: "r1 = Inr c" by blast
  have "runFiles A e (xs @ fp # ys) (lg0, []) = runFiles A e ys (l1 @ [''Skipping '' @ fp], c)"
    using run c skip [of l1 c] by (simp add: runFiles_append)
  moreover have "set (fst (l1 @ [''Skipping '' @ fp], c)) \<subseteq>
      set (fst (runFiles A e ys (l1 @ [''Skipping '' @ fp], c)))"
    by (rule runFiles_log)
  moreover have "fst (finish x) = fst x" for x :: "string list \<times> (outcome + accounts)"
    by (cases x) (auto simp: finish_def split: sum.splits)
  ultimately have "(''Skipping '' @ fp) \<in> set (fst (Load A e))"
    using load by auto
  then show "(''Skipping '' @ fp) \<in> set (fst (Load (Yaml\<lparr>Dir := d\<rparr>) e))"
    by (simp add: A_def)
qed


lemma readme_unmatched: "\<not> matches ''readme.txt''"
proof -
  have "FindStringSubmatch (pathRegex Yaml) ''readme.txt'' = []" by code_simp
  then show ?thesis by (simp add: matches_iff)
qed

theorem unmatched_path_skipped_witness:
  "\<not> matches ''readme.txt'' \<and>
   getFilesRecursively (Yaml\<lparr>Dir := ''root''\<rparr>) bobTree
     = ([''prod-123456789012/user/bob.yaml''] @ ''readme.txt'' # [], None) \<and>
   loadFile (Yaml\<lparr>Dir := ''root''\<rparr>) bobTree ''readme.txt'' ([], [])
     = ([''Skipping readme.txt''], Inr []) \<and>
   snd (Load (Yaml\<lparr>Dir := ''root''\<rparr>) bobTree) =
     snd (loadFiles (Yaml\<lparr>Dir := ''root''\<rparr>) bobTree [''prod-123456789012/user/bob.yaml'']
            ([''Loading YAML IAM data from root''], [])) \<and>
   ''Skipping readme.txt'' \<in> set (fst (Load (Yaml\<lparr>Dir := ''root''\<rparr>) bobTree))"
proof -
  have files: "getFilesRecursively (Yaml\<lparr>Dir := ''root''\<rparr>) bobTree
     = ([''prod-123456789012/user/bob.yaml''] @ ''readme.txt'' # [], None)"
    by (simp add: getFilesRecursively_def bobTree_def tree_def)
  have before: "\<exists>r. snd (loadFiles (Yaml\<lparr>Dir := ''root''\<rparr>) bobTree [''prod-123456789012/user/bob.yaml'']
            ([''Loading YAML IAM data from '' @ ''root''], [])) = Ok (r, None)"
  proof -
    have "snd (loadFiles (Yaml\<lparr>Dir := ''root''\<rparr>) bobTree [''prod-123456789012/user/bob.yaml'']
            ([''Loading YAML IAM data from '' @ ''root''], [])) =
       Ok ([\<lparr>DataAccount = \<lparr>AccountId = ''123456789012'', AccountAlias = ''prod''\<rparr>,
         Users = [\<lparr> UserName = ''bob'', UserPath = ''/'', UserGroups = [], UserInlinePolicies = [],
                   UserPolicies = [''ReadOnly''] \<rparr>],
         Groups = [], Roles = [], Policies = []\<rparr>], None)"
      by code_simp
    then show ?thesis by blast
  qed
  show ?thesis
    using unmatched_path_skipped [of "''readme.txt''" "''root''" bobTree
        "[''prod-123456789012/user/bob.yaml'']" "[]" "[]" "[]"]
      readme_unmatched files before
    by simp
qed

subsection \<open>Files that cannot be read or decoded\<close>






section \<open>Name and path come from the location\<close>

lemma located_here:
  "pathComponents fp = Some (acct, k, p, n) \<Longrightarrow> fp \<in> set fps \<Longrightarrow> located fps k n p"
  unfolding located_def list_ex_iff by force

definition inv :: "string list \<Rightarrow> accounts \<Rightarrow> bool" where
  "inv fps accts \<longleftrightarrow> (\<forall>x \<in> set accts. identityFromPath fps (snd x))"

lemma inv_modify:
  assumes "inv fps accts" "\<And>d. identityFromPath fps d \<Longrightarrow> identityFromPath fps (f d)"
  shows "inv fps (modify k f accts)"
  using assms by (auto simp: inv_def modify_def)

lemma inv_new:
  assumes "inv fps accts" "NewAccountData acct = Ok d"
  shows "inv fps (accts @ [(acct, d)])"
  using assms NewAccountData_empty [OF assms(2)] by (auto simp: inv_def identityFromPath_def)

lemma loadMatched_inv:
  assumes "pathComponents fp = Some (acct, k, p, n)" "fp \<in> set fps" "inv fps accts"
    "loadMatched a e fp acct k p n (lg, accts) = (lg', Inr accts')"
  shows "inv fps accts'"
proof -
  obtain accts1 where a1: "(if map_of accts acct = None
            then (case NewAccountData acct of
                    Panic m \<Rightarrow> Panic m
                  | Ok d \<Rightarrow> Ok (accts @ [(acct, d)]))
            else Ok accts) = Ok accts1"
    using assms(4) by (auto simp: loadMatched_def Let_def split: result.splits)
  then have i1: "inv fps accts1"
    using assms(3) inv_new by (auto split: if_splits result.splits)
  have loc: "located fps k n p" using assms(1,2) by (rule located_here)
  from assms(4) a1 consider
      u where "k = ''user''" "accts' = modify acct (addUser (u\<lparr> UserName := n, UserPath := p \<rparr>)) accts1"
    | g where "k = ''group''" "accts' = modify acct (addGroup (g\<lparr> GroupName := n, GroupPath := p \<rparr>)) accts1"
    | r where "k = ''role''" "accts' = modify acct (addRole (r\<lparr> RoleName := n, RolePath := p \<rparr>)) accts1"
    | q where "k = ''policy''" "accts' = modify acct (addPolicy (q\<lparr> PolicyName := n, PolicyPath := p \<rparr>)) accts1"
    by (auto simp: loadMatched_def Let_def split: sum.splits if_splits)
  then show ?thesis
  proof cases
    case 1
    have "identityFromPath fps (addUser (u\<lparr> UserName := n, UserPath := p \<rparr>) d)"
      if "identityFromPath fps d" for d
      using that loc 1(1) by (simp add: identityFromPath_def addUser_def)
    with i1 show ?thesis unfolding 1(2) by (rule inv_modify)
  next
    case 2
    have "identityFromPath fps (addGroup (g\<lparr> GroupName := n, GroupPath := p \<rparr>) d)"
      if "identityFromPath fps d" for d
      using that loc 2(1) by (simp add: identityFromPath_def addGroup_def)
    with i1 show ?thesis unfolding 2(2) by (rule inv_modify)
  next
    case 3
    have "identityFromPath fps (addRole (r\<lparr> RoleName := n, RolePath := p \<rparr>) d)"
      if "identityFromPath fps d" for d
      using that loc 3(1) by (simp add: identityFromPath_def addRole_def)
    with i1 show ?thesis unfolding 3(2) by (rule inv_modify)
  next
    case 4
    have "identityFromPath fps (addPolicy (q\<lparr> PolicyName := n, PolicyPath := p \<rparr>) d)"
      if "identityFromPath fps d" for d
      using that loc 4(1) by (simp add: identityFromPath_def addPolicy_def)
    with i1 show ?thesis unfolding 4(2) by (rule inv_modify)
  qed
qed

lemma loadFile_inv:
  assumes "pathRegex a = pathRegex Yaml" "fp \<in> set fps" "inv fps accts"
    "loadFile a e fp (lg, accts) = (lg', Inr accts')"
  shows "inv fps accts'"
proof (cases "matches fp")
  case False
  with assms show ?thesis using loadFile_unmatched [OF False assms(1), of e lg accts] by simp
next
  case True
  from matches_components [OF True] obtain acct k p n where
    c: "pathComponents fp = Some (acct, k, p, n)" by blast
  with assms loadFile_matched [OF assms(1) c, of e "(lg, accts)"] show ?thesis
    using loadMatched_inv [OF c assms(2,3)] by simp
qed

lemma runFiles_inv:
  assumes "pathRegex a = pathRegex Yaml" "set xs \<subseteq> set fps" "inv fps accts"
    "runFiles a e xs (lg, accts) = (lg', Inr accts')"
  shows "inv fps accts'"
  using assms(2-4)
proof (induction xs arbitrary: lg accts)
  case Nil
  then show ?case by simp
next
  case (Cons x xs)
  obtain l1 r1 where 1: "loadFile a e x (lg, accts) = (l1, r1)" by (cases "loadFile a e x (lg, accts)")
  show ?case
  proof (cases r1)
    case (Inl out)
    with 1 Cons.prems(3) show ?thesis by simp
  next
    case (Inr c)
    have "x \<in> set fps" using Cons.prems(1) by simp
    from loadFile_inv [OF assms(1) this Cons.prems(2) 1 [unfolded Inr]] have "inv fps c" .
    moreover from 1 Inr Cons.prems(3) have "runFiles a e xs (l1, c) = (lg', Inr accts')" by simp
    moreover have "set xs \<subseteq> set fps" using Cons.prems(1) by simp
    ultimately show ?thesis using Cons.IH by blast
  qed
qed

lemma Load_identity:
  assumes "getFilesRecursively (Yaml\<lparr>Dir := d\<rparr>) e = (fps, None)"
    "Load (Yaml\<lparr>Dir := d\<rparr>) e = (lg, Ok (accts, None))"
  shows "list_all (identityFromPath fps) accts"
proof -
  define A where "A = Yaml\<lparr>Dir := d\<rparr>"
  define lg0 where "lg0 = [''Loading YAML IAM data from '' @ d]"
  have re: "pathRegex A = pathRegex Yaml" by (simp add: A_def)
  have load: "finish (runFiles A e fps (lg0, [])) = (lg, Ok (accts, None))"
    using Load_files [OF assms(1)] assms(2) by (simp add: loadFiles_runFiles lg0_def A_def)
  obtain l1 r1 where run: "runFiles A e fps (lg0, []) = (l1, r1)" by (cases "runFiles A e fps (lg0, [])")
  show ?thesis
  proof (cases r1)
    case (Inl out)
    with run load have "out = Ok (accts, None)" by (simp add: finish_def)
    with runFiles_abort_shape [of A e fps "(lg0, [])" l1 out] run Inl show ?thesis by auto
  next
    case (Inr c)
    with run load have "accts = map snd c" by (simp add: finish_def)
    moreover have "inv fps c"
      using runFiles_inv [OF re _ _ run [unfolded Inr]] by (simp add: inv_def)
    ultimately show ?thesis by (auto simp: inv_def list_all_iff)
  qed
qed

lemma yamlFields_keys:
  "''Name'' \<notin> fst ` set (yamlFields r) \<and> ''Path'' \<notin> fst ` set (yamlFields r)"
  by (cases r) (auto simp: omitempty_def)

lemma yamlFields_withIdentity: "yamlFields (withIdentity n p r) = yamlFields r"
  by (cases r) simp_all

lemma writeYamlFile_withIdentity:
  "writeYamlFile e path (withIdentity n p r) st = writeYamlFile e path r st"
  by (simp add: writeYamlFile_def yamlFields_withIdentity)

text \<open>
  Claim C9. For every resource, the fields written to the file body have no \<^verbatim>\<open>Name\<close> and
  no \<^verbatim>\<open>Path\<close> key, and the file written is the same whatever the resource's name and path
  are; and for every resource in the accounts that \<^verbatim>\<open>Load\<close> returns, its name and path
  are the name and path groups of the path pattern on the relative path of one of the
  files of its entity kind, whatever the decoder made of the file's contents.
\<close>

theorem identity_from_path:
  "(''Name'' \<notin> fst ` set (yamlFields r) \<and> ''Path'' \<notin> fst ` set (yamlFields r) \<and>
    writeYamlFile e path (withIdentity n p r) st = writeYamlFile e path r st) \<and>
   (getFilesRecursively (Yaml\<lparr>Dir := d\<rparr>) e = (fps, None) \<and>
    Load (Yaml\<lparr>Dir := d\<rparr>) e = (lg, Ok (accts, None)) \<longrightarrow>
      list_all (identityFromPath fps) accts)"
  using yamlFields_keys writeYamlFile_withIdentity Load_identity by blast

text \<open>
  The user \<^verbatim>\<open>bob\<close> of the spec's scenario: written, and loaded from a file whose decoded
  contents have an empty name and path.
\<close>

theorem identity_from_path_witness:
  "''Name'' \<notin> fst ` set (yamlFields (AUser \<lparr> UserName = ''bob'', UserPath = ''/'', UserGroups = [''dev''],
       UserInlinePolicies = [], UserPolicies = [''ReadOnly''] \<rparr>)) \<and>
   yamlFields (AUser \<lparr> UserName = ''bob'', UserPath = ''/'', UserGroups = [''dev''],
       UserInlinePolicies = [], UserPolicies = [''ReadOnly''] \<rparr>)
     = [(''Groups'', YSeq [YStr ''dev'']), (''Policies'', YSeq [YStr ''ReadOnly''])] \<and>
   getFilesRecursively (Yaml\<lparr>Dir := ''root''\<rparr>) bobTree
     = ([''prod-123456789012/user/bob.yaml'', ''readme.txt''], None) \<and>
   Load (Yaml\<lparr>Dir := ''root''\<rparr>) bobTree =
     ([''Loading YAML IAM data from root'', ''Loading prod-123456789012/user/bob.yaml'',
       ''Skipping readme.txt''],
      Ok ([\<lparr>DataAccount = \<lparr>AccountId = ''123456789012'', AccountAlias = ''prod''\<rparr>,
         Users = [\<lparr> UserName = ''bob'', UserPath = ''/'', UserGroups = [], UserInlinePolicies = [],
                   UserPolicies = [''ReadOnly''] \<rparr>],
         Groups = [], Roles = [], Policies = []\<rparr>], None)) \<and>
   list_all (identityFromPath [''prod-123456789012/user/bob.yaml'', ''readme.txt''])
     [\<lparr>DataAccount = \<lparr>AccountId = ''123456789012'', AccountAlias = ''prod''\<rparr>,
         Users = [\<lparr> UserName = ''bob'', UserPath = ''/'', UserGroups = [], UserInlinePolicies = [],
                   UserPolicies = [''ReadOnly''] \<rparr>],
         Groups = [], Roles = [], Policies = []\<rparr>]"
proof -
  have files: "getFilesRecursively (Yaml\<lparr>Dir := ''root''\<rparr>) bobTree
     = ([''prod-123456789012/user/bob.yaml'', ''readme.txt''], None)"
    by (simp add: getFilesRecursively_def bobTree_def tree_def)
  have load: "Load (Yaml\<lparr>Dir := ''root''\<rparr>) bobTree =
     ([''Loading YAML IAM data from root'', ''Loading prod-123456789012/user/bob.yaml'',
       ''Skipping readme.txt''],
      Ok ([\<lparr>DataAccount = \<lparr>AccountId = ''123456789012'', AccountAlias = ''prod''\<rparr>,
         Users = [\<lparr> UserName = ''bob'', UserPath = ''/'', UserGroups = [], UserInlinePolicies = [],
                   UserPolicies = [''ReadOnly''] \<rparr>],
         Groups = [], Roles = [], Policies = []\<rparr>], None))"
    by code_simp
  have fields: "yamlFields (AUser \<lparr> UserName = ''bob'', UserPath = ''/'', UserGroups = [''dev''],
       UserInlinePolicies = [], UserPolicies = [''ReadOnly''] \<rparr>)
     = [(''Groups'', YSeq [YStr ''dev'']), (''Policies'', YSeq [YStr ''ReadOnly''])]"
    by (simp add: omitempty_def)
  from files load fields show ?thesis
    using identity_from_path [where r = "AUser \<lparr> UserName = ''bob'', UserPath = ''/'', UserGroups = [''dev''],
       UserInlinePolicies = [], UserPolicies = [''ReadOnly''] \<rparr>" and e = bobTree and d = "''root''"
       and fps = "[''prod-123456789012/user/bob.yaml'', ''readme.txt'']"
       and lg = "[''Loading YAML IAM data from root'', ''Loading prod-123456789012/user/bob.yaml'',
       ''Skipping readme.txt'']"
       and accts = "[\<lparr>DataAccount = \<lparr>AccountId = ''123456789012'', AccountAlias = ''prod''\<rparr>,
         Users = [\<lparr> UserName = ''bob'', UserPath = ''/'', UserGroups = [], UserInlinePolicies = [],
                   UserPolicies = [''ReadOnly''] \<rparr>],
         Groups = [], Roles = [], Policies = []\<rparr>]"]
    by blast
qed

section \<open>Dumping an account\<close>

lemma forEach_append:
  "forEach w (xs @ ys) st =
     (case forEach w xs st of
        (st1, Some err) \<Rightarrow> (st1, Some err)
      | (st1, None) \<Rightarrow> forEach w ys st1)"
  by (induction xs arbitrary: st) (auto split: prod.splits option.splits)

lemma forEach_map: "forEach w (map g xs) st = forEach (\<lambda>x. w (g x)) xs st"
  by (induction xs arbitrary: st) (auto split: prod.splits option.splits)

lemma writes_resources:
  "(case forEach (writeUser f e a) us st0 of
        (st1, Some err) \<Rightarrow> (st1, lg, Some err)
      | (st1, None) \<Rightarrow>
      (case forEach (writePolicy f e a) ps st1 of
        (st2, Some err) \<Rightarrow> (st2, lg, Some err)
      | (st2, None) \<Rightarrow>
      (case forEach (writeGroup f e a) gs st2 of
        (st3, Some err) \<Rightarrow> (st3, lg, Some err)
      | (st3, None) \<Rightarrow>
      (case forEach (writeRole f e a) rs st3 of
        (st4, Some err) \<Rightarrow> (st4, lg, Some err)
      | (st4, None) \<Rightarrow> (st4, lg, None))))) =
   (case forEach (writeResource f e a) (map AUser us @ map APolicy ps @ map AGroup gs @ map ARole rs) st0 of
      (st1, err) \<Rightarrow> (st1, lg, err))"
proof -
  have w: "writeUser f e a = (\<lambda>x. writeResource f e a (AUser x))"
    "writePolicy f e a = (\<lambda>x. writeResource f e a (APolicy x))"
    "writeGroup f e a = (\<lambda>x. writeResource f e a (AGroup x))"
    "writeRole f e a = (\<lambda>x. writeResource f e a (ARole x))"
    by (simp_all add: writeUser_def writePolicy_def writeGroup_def writeRole_def fun_eq_iff)
  obtain s1 e1 where 1: "forEach (writeUser f e a) us st0 = (s1, e1)"
    by (cases "forEach (writeUser f e a) us st0")
  obtain s2 e2 where 2: "forEach (writePolicy f e a) ps s1 = (s2, e2)"
    by (cases "forEach (writePolicy f e a) ps s1")
  obtain s3 e3 where 3: "forEach (writeGroup f e a) gs s2 = (s3, e3)"
    by (cases "forEach (writeGroup f e a) gs s2")
  obtain s4 e4 where 4: "forEach (writeRole f e a) rs s3 = (s4, e4)"
    by (cases "forEach (writeRole f e a) rs s3")
  show ?thesis
  proof (cases e1)
    case (Some x)
    with 1 show ?thesis by (simp add: forEach_append forEach_map w [symmetric])
  next
    case n1: None
    show ?thesis
    proof (cases e2)
      case (Some x)
      with 1 2 n1 show ?thesis by (simp add: forEach_append forEach_map w [symmetric])
    next
      case n2: None
      show ?thesis
      proof (cases e3)
        case (Some x)
        with 1 2 3 n1 n2 show ?thesis by (simp add: forEach_append forEach_map w [symmetric])
      next
        case n3: None
        with 1 2 3 4 n1 n2 show ?thesis
          by (cases e4) (simp_all add: forEach_append forEach_map w [symmetric])
      qed
    qed
  qed
qed

lemma Dump_resources:
  "Dump f e ad canDelete st =
     (case (if canDelete
            then RemoveAll e (filepath_Join e (Dir f) (String (DataAccount ad))) st
            else (st, None)) of
        (st0, Some err) \<Rightarrow> (st0, [''Dumping YAML IAM data to '' @ Dir f], Some err)
      | (st0, None) \<Rightarrow>
          (case forEach (writeResource f e (DataAccount ad)) (resources ad) st0 of
             (st1, err) \<Rightarrow> (st1, [''Dumping YAML IAM data to '' @ Dir f], err)))"
  unfolding Dump_def Let_def writes_resources resources_def ..

lemma writeResource_effect:
  assumes "writeResource (Yaml\<lparr>Dir := d\<rparr>) e a r st = (st', err)"
  shows "st' = st \<or> (\<exists>b. yaml_Marshal e (yamlFields r) = Inr b \<and> st' = st(dumpPath e d a r \<mapsto> b))"
  using assms
  by (auto simp: writeResource_def renderPath_Yaml [unfolded Yaml_def, simplified] Yaml_def
      writeYamlFile_def WriteFile_def dumpPath_def
      split: sum.splits option.splits)

definition written :: "env \<Rightarrow> string \<Rightarrow> Account \<Rightarrow> AwsResource list \<Rightarrow> store \<Rightarrow> store \<Rightarrow> bool" where
  "written e d a rs st st' \<longleftrightarrow>
     (\<forall>p. st' p = st p \<or>
        (\<exists>r \<in> set rs. p = dumpPath e d a r \<and>
           (\<exists>b. yaml_Marshal e (yamlFields r) = Inr b \<and> st' p = Some b)))"

lemma forEach_written:
  assumes "forEach (writeResource (Yaml\<lparr>Dir := d\<rparr>) e a) rs st = (st', err)"
  shows "written e d a rs st st'"
  using assms
proof (induction rs arbitrary: st)
  case Nil
  then show ?case by (simp add: written_def)
next
  case (Cons r rs)
  obtain st1 e1 where 1: "writeResource (Yaml\<lparr>Dir := d\<rparr>) e a r st = (st1, e1)"
    by (cases "writeResource (Yaml\<lparr>Dir := d\<rparr>) e a r st")
  from writeResource_effect [OF 1] have w1: "written e d a [r] st st1"
    by (auto simp: written_def split: if_splits)
  show ?case
  proof (cases e1)
    case (Some x)
    with 1 Cons.prems have "st' = st1" by simp
    with w1 show ?thesis by (auto simp: written_def)
  next
    case None
    with 1 Cons.prems have "forEach (writeResource (Yaml\<lparr>Dir := d\<rparr>) e a) rs st1 = (st', err)" by simp
    from Cons.IH [OF this] have w2: "written e d a rs st1 st'" .
    show ?thesis
      unfolding written_def
    proof
      fix p
      from w2 have "st' p = st1 p \<or>
        (\<exists>r \<in> set rs. p = dumpPath e d a r \<and>
           (\<exists>b. yaml_Marshal e (yamlFields r) = Inr b \<and> st' p = Some b))"
        by (simp add: written_def)
      moreover from w1 have "st1 p = st p \<or>
        (p = dumpPath e d a r \<and> (\<exists>b. yaml_Marshal e (yamlFields r) = Inr b \<and> st1 p = Some b))"
        by (simp add: written_def)
      ultimately show "st' p = st p \<or>
        (\<exists>r \<in> set (r # rs). p = dumpPath e d a r \<and>
           (\<exists>b. yaml_Marshal e (yamlFields r) = Inr b \<and> st' p = Some b))"
        by auto
    qed
  qed
qed

text \<open>
  Claim C8. \<^verbatim>\<open>Dump\<close> with \<^verbatim>\<open>canDelete\<close> true first removes the directory of the account,
  the destination joined with the account's string form. When the removal fails, nothing
  is written and its error is returned. When it succeeds, the dump is the dump without
  deletion started from the store with everything within that directory removed; so
  afterwards every file within that directory is the file of one of the account's
  resources, with the encoded fields of that resource as its body, and every file that
  was outside that directory is still there.
\<close>

theorem destructive_dump:
  "(os_RemoveAll_err e (filepath_Join e d (String (DataAccount ad))) = Some x \<longrightarrow>
      Dump (Yaml\<lparr>Dir := d\<rparr>) e ad True st = (st, [''Dumping YAML IAM data to '' @ d], Some x)) \<and>
   (os_RemoveAll_err e (filepath_Join e d (String (DataAccount ad))) = None \<and>
    Dump (Yaml\<lparr>Dir := d\<rparr>) e ad True st = (st', lg, err) \<longrightarrow>
      Dump (Yaml\<lparr>Dir := d\<rparr>) e ad True st =
        Dump (Yaml\<lparr>Dir := d\<rparr>) e ad False
          (\<lambda>q. if within (filepath_Join e d (String (DataAccount ad))) q then None else st q) \<and>
      (within (filepath_Join e d (String (DataAccount ad))) p \<and> st' p \<noteq> None \<longrightarrow>
         (\<exists>r \<in> set (resources ad). p = dumpPath e d (DataAccount ad) r \<and>
            (\<exists>b. yaml_Marshal e (yamlFields r) = Inr b \<and> st' p = Some b))) \<and>
      (\<not> within (filepath_Join e d (String (DataAccount ad))) p \<and> st p \<noteq> None \<longrightarrow> st' p \<noteq> None))"
proof (intro conjI impI)
  define dest where "dest = filepath_Join e d (String (DataAccount ad))"
  define A where "A = Yaml\<lparr>Dir := d\<rparr>"
  define st0 where "st0 = (\<lambda>q. if within dest q then None else st q)"
  have dir: "Dir A = d" by (simp add: A_def)
  show "Dump (Yaml\<lparr>Dir := d\<rparr>) e ad True st = (st, [''Dumping YAML IAM data to '' @ d], Some x)"
    if "os_RemoveAll_err e (filepath_Join e d (String (DataAccount ad))) = Some x"
    using that by (simp add: Dump_resources RemoveAll_def)
  assume h: "os_RemoveAll_err e (filepath_Join e d (String (DataAccount ad))) = None \<and>
    Dump (Yaml\<lparr>Dir := d\<rparr>) e ad True st = (st', lg, err)"
  then have rm: "RemoveAll e dest st = (st0, None)"
    by (simp add: RemoveAll_def dest_def st0_def)
  have eq: "Dump A e ad True st = Dump A e ad False st0"
    unfolding Dump_resources dir dest_def [symmetric] using rm by simp
  then show "Dump (Yaml\<lparr>Dir := d\<rparr>) e ad True st =
        Dump (Yaml\<lparr>Dir := d\<rparr>) e ad False
          (\<lambda>q. if within (filepath_Join e d (String (DataAccount ad))) q then None else st q)"
    by (simp add: A_def st0_def dest_def)
  from h eq have "Dump A e ad False st0 = (st', lg, err)" by (simp add: A_def)
  then have "forEach (writeResource A e (DataAccount ad)) (resources ad) st0 = (st', err)"
    by (simp add: Dump_resources split: prod.splits)
  then have w: "written e d (DataAccount ad) (resources ad) st0 st'"
    unfolding A_def by (rule forEach_written)
  show "\<exists>r \<in> set (resources ad). p = dumpPath e d (DataAccount ad) r \<and>
            (\<exists>b. yaml_Marshal e (yamlFields r) = Inr b \<and> st' p = Some b)"
    if "within (filepath_Join e d (String (DataAccount ad))) p \<and> st' p \<noteq> None"
  proof -
    from that have "st0 p = None" "st' p \<noteq> None" by (simp_all add: st0_def dest_def)
    with w show ?thesis unfolding written_def by metis
  qed
  show "st' p \<noteq> None"
    if "\<not> within (filepath_Join e d (String (DataAccount ad))) p \<and> st p \<noteq> None"
  proof -
    from that have "st0 p \<noteq> None" by (simp add: st0_def dest_def)
    with w show ?thesis unfolding written_def by (metis option.distinct(1))
  qed
qed

text \<open>
  The spec's scenario: the role \<^verbatim>\<open>deploy\<close> of the account 999 dumped over a stray file of
  the account, beside a file of another directory.
\<close>

lemma dump_example:
  "fst (Dump (Yaml\<lparr>Dir := ''root''\<rparr>) quietEnv deployData True strayStore) ''root/999/stray.txt'' = None"
  "fst (Dump (Yaml\<lparr>Dir := ''root''\<rparr>) quietEnv deployData True strayStore) ''root/999/role/svc/deploy.yaml''
     = Some ''AssumeRolePolicyDocument: ...; ''"
  "snd (snd (Dump (Yaml\<lparr>Dir := ''root''\<rparr>) quietEnv deployData True strayStore)) = None"
  by (simp_all add: Dump_def RemoveAll_def quietEnv_def tree_def deployData_def strayStore_def
      String_def within_def writeRole_def writeResource_def renderPath_def Yaml_def evalField_def
      writeYamlFile_def WriteFile_def omitempty_def)

theorem destructive_dump_witness:
  "os_RemoveAll_err quietEnv ''root/999'' = None \<and>
   strayStore ''root/999/stray.txt'' = Some ''old'' \<and>
   within ''root/999'' ''root/999/stray.txt'' \<and>
   fst (Dump (Yaml\<lparr>Dir := ''root''\<rparr>) quietEnv deployData True strayStore) ''root/999/stray.txt'' = None \<and>
   within ''root/999'' ''root/999/role/svc/deploy.yaml'' \<and>
   fst (Dump (Yaml\<lparr>Dir := ''root''\<rparr>) quietEnv deployData True strayStore)
     ''root/999/role/svc/deploy.yaml'' = Some ''AssumeRolePolicyDocument: ...; '' \<and>
   (\<exists>r \<in> set (resources deployData).
      ''root/999/role/svc/deploy.yaml'' = dumpPath quietEnv ''root'' (DataAccount deployData) r \<and>
      yaml_Marshal quietEnv (yamlFields r) = Inr ''AssumeRolePolicyDocument: ...; '') \<and>
   \<not> within ''root/999'' ''root/other.txt'' \<and>
   strayStore ''root/other.txt'' \<noteq> None \<and>
   fst (Dump (Yaml\<lparr>Dir := ''root''\<rparr>) quietEnv deployData True strayStore) ''root/other.txt'' \<noteq> None"
proof -
  define D where "D = Dump (Yaml\<lparr>Dir := ''root''\<rparr>) quietEnv deployData True strayStore"
  have j: "filepath_Join quietEnv ''root'' (String (DataAccount deployData)) = ''root/999''"
    by (simp add: quietEnv_def tree_def deployData_def String_def)
  have rm: "os_RemoveAll_err quietEnv ''root/999'' = None" by (simp add: quietEnv_def tree_def)
  have w: "within ''root/999'' ''root/999/stray.txt''" "within ''root/999'' ''root/999/role/svc/deploy.yaml''"
    "\<not> within ''root/999'' ''root/other.txt''"
    by (simp_all add: within_def)
  have st: "strayStore ''root/999/stray.txt'' = Some ''old''" "strayStore ''root/other.txt'' \<noteq> None"
    by (simp_all add: strayStore_def)
  have d: "Dump (Yaml\<lparr>Dir := ''root''\<rparr>) quietEnv deployData True strayStore = (fst D, fst (snd D), snd (snd D))"
    by (simp add: D_def)
  have "fst D ''root/other.txt'' \<noteq> None"
    using destructive_dump [where e = quietEnv and d = "''root''" and ad = deployData and st = strayStore
        and st' = "fst D" and lg = "fst (snd D)" and err = "snd (snd D)" and p = "''root/other.txt''"]
      rm w(3) st(2) d unfolding j by blast
  moreover have "\<exists>r \<in> set (resources deployData).
      ''root/999/role/svc/deploy.yaml'' = dumpPath quietEnv ''root'' (DataAccount deployData) r \<and>
      yaml_Marshal quietEnv (yamlFields r) = Inr ''AssumeRolePolicyDocument: ...; ''"
  proof -
    have "fst D ''root/999/role/svc/deploy.yaml'' = Some ''AssumeRolePolicyDocument: ...; ''"
      using dump_example(2) by (simp add: D_def)
    then have "\<exists>r \<in> set (resources deployData).
      ''root/999/role/svc/deploy.yaml'' = dumpPath quietEnv ''root'' (DataAccount deployData) r \<and>
      (\<exists>b. yaml_Marshal quietEnv (yamlFields r) = Inr b \<and>
         fst D ''root/999/role/svc/deploy.yaml'' = Some b)"
      using destructive_dump [where e = quietEnv and d = "''root''" and ad = deployData
          and st = strayStore and st' = "fst D" and lg = "fst (snd D)" and err = "snd (snd D)"
          and p = "''root/999/role/svc/deploy.yaml''"]
        rm w(2) d unfolding j by blast
    then show ?thesis
      using \<open>fst D ''root/999/role/svc/deploy.yaml'' = Some ''AssumeRolePolicyDocument: ...; ''\<close>
      by auto
  qed
  ultimately show ?thesis using rm w st dump_example unfolding D_def by simp
qed

end
